theory Spec2Isabelle
  imports Main "HOL-Library.Multiset"
begin

unbundle bit_operations_syntax

section \<open>mpts: Multithreaded Ping Two Subnets\<close>

text \<open>
  A shallow embedding of \<^verbatim>\<open>mpts.py\<close>. Python integers are \<open>int\<close>, Python strings are
  \<open>string\<close>, a probe target is the tuple \<^verbatim>\<open>(final_octet, ip_str)\<close>. Exceptions and
  \<^verbatim>\<open>sys.exit\<close> are values of type \<open>error\<close>; everything the program prints and every
  \<^verbatim>\<open>ping\<close> subprocess it starts is an event of an explicit trace.
\<close>

subsection \<open>Values, errors and events\<close>

type_synonym target = "int \<times> string"

datatype error =
    ValueError
  | AddressValueError
  | NetmaskValueError
  | IndexError
  | AssertionError
  | SystemExit "int option"

text \<open>
  The variable \<^verbatim>\<open>skip\<close> holds a Python string (the default \<^verbatim>\<open>""\<close>) or a Python
  integer (after \<^verbatim>\<open>int(skip)\<close> in \<^verbatim>\<open>main\<close>).
\<close>

datatype skip_value = SkipStr string | SkipInt int

text \<open>The lines the program prints, one constructor per \<^verbatim>\<open>print\<close> call of the source.\<close>

datatype message =
    UsageMsg
  | HelpMsg
  | Cidr24OnlyMsg
  | SkipOctetMsg
  | BlankMsg
  | Cidr1Msg string
  | Cidr2Msg string
  | IsUpMsg string
  | IsDownMsg string
  | FailedAttemptMsg string nat
  | NoFailuresMsg string string
  | FailedRequestsMsg string "string list"
  | OnlyOctetsMsg string string "int list"
  | CommonOctetsMsg string string "int list"

datatype event = Print message | Ping string

type_synonym trace = "event list"

subsection \<open>Python built-ins used by the program\<close>

text \<open>
  \<^verbatim>\<open>str.split(sep)\<close> for a one-character separator: the result is never empty, and
  \<^verbatim>\<open>"".split(".")\<close> is \<^verbatim>\<open>[""]\<close>.
\<close>

primrec str_split :: "char \<Rightarrow> string \<Rightarrow> string list" where
  "str_split sep [] = [[]]"
| "str_split sep (c # cs) =
     (if c = sep then [] # str_split sep cs
      else (case str_split sep cs of [] \<Rightarrow> [[c]] | w # ws \<Rightarrow> (c # w) # ws))"

text \<open>\<^verbatim>\<open>sep.join(parts)\<close> for a one-character separator.\<close>

fun str_join :: "char \<Rightarrow> string list \<Rightarrow> string" where
  "str_join sep [] = []"
| "str_join sep [w] = w"
| "str_join sep (w # ws) = w @ sep # str_join sep ws"

definition digit_char :: "nat \<Rightarrow> char" where
  "digit_char d = ''0123456789'' ! d"

text \<open>\<^verbatim>\<open>str(n)\<close> for a non-negative integer.\<close>

fun str_nat :: "nat \<Rightarrow> string" where
  "str_nat n = (if n < 10 then [digit_char n] else str_nat (n div 10) @ [digit_char (n mod 10)])"

declare str_nat.simps [simp del]

definition is_ascii_digit :: "char \<Rightarrow> bool" where
  "is_ascii_digit c = (48 \<le> (of_char c :: nat) \<and> (of_char c :: nat) \<le> 57)"

definition digits_value :: "string \<Rightarrow> nat" where
  "digits_value ds = foldl (\<lambda>a c. 10 * a + (of_char c - 48)) 0 ds"

text \<open>
  The characters below code point 256 that \<^verbatim>\<open>int\<close> strips from both ends of its
  argument: tab to carriage return, space, next-line and no-break space.
\<close>

definition py_isspace :: "char \<Rightarrow> bool" where
  "py_isspace c =
     (let n = (of_char c :: nat)
      in (9 \<le> n \<and> n \<le> 13) \<or> n = 32 \<or> n = 133 \<or> n = 160)"

definition py_strip :: "string \<Rightarrow> string" where
  "py_strip s = rev (dropWhile py_isspace (rev (dropWhile py_isspace s)))"

text \<open>
  \<^verbatim>\<open>int(s)\<close> for a string: surrounding whitespace, an optional sign, then decimal
  digits in groups separated by single underscores. Anything else raises
  \<^verbatim>\<open>ValueError\<close>.
\<close>

definition py_int :: "string \<Rightarrow> error + int" where
  "py_int s =
     (let s1 = py_strip s;
          (neg, body) = (case s1 of
                           [] \<Rightarrow> (False, [])
                         | c # cs \<Rightarrow> if c = CHR ''-'' then (True, cs)
                                    else if c = CHR ''+'' then (False, cs)
                                    else (False, s1));
          groups = str_split (CHR ''_'') body
      in if list_all (\<lambda>g. g \<noteq> [] \<and> list_all is_ascii_digit g) groups
         then Inr ((if neg then - 1 else 1) * int (digits_value (concat groups)))
         else Inl ValueError)"

text \<open>\<^verbatim>\<open>s[-3:]\<close>: the last three characters, or the whole string when it is shorter.\<close>

definition last3 :: "string \<Rightarrow> string" where
  "last3 s = drop (length s - 3) s"

text \<open>
  \<^verbatim>\<open>a in b\<close> for two strings is the substring test. The source writes
  \<^verbatim>\<open>opt in ("--cidr1")\<close>, where the parentheses do not make a tuple.
\<close>

definition str_in :: "string \<Rightarrow> string \<Rightarrow> bool" where
  "str_in a b = (\<exists>i \<in> set [0 ..< Suc (length b)]. take (length a) (drop i b) = a)"

subsection \<open>The \<^verbatim>\<open>ipaddress\<close> module, as far as \<^verbatim>\<open>IPv4Network(cidr)\<close> uses it\<close>

text \<open>
  An address is its 32-bit integer. The definitions follow the functions of CPython's
  \<^verbatim>\<open>ipaddress.py\<close> that the constructor \<^verbatim>\<open>IPv4Network(address, strict=True)\<close> runs on
  a string.
\<close>

definition ALL_ONES :: nat where
  "ALL_ONES = 2 ^ 32 - 1"

definition parse_octet :: "string \<Rightarrow> error + nat" where
  "parse_octet octet_str =
     (if octet_str = [] then Inl ValueError
      else if \<not> list_all is_ascii_digit octet_str then Inl ValueError
      else if length octet_str > 3 then Inl ValueError
      else if octet_str \<noteq> ''0'' \<and> hd octet_str = CHR ''0'' then Inl ValueError
      else if digits_value octet_str > 255 then Inl ValueError
      else Inr (digits_value octet_str))"

fun parse_octets :: "string list \<Rightarrow> error + nat list" where
  "parse_octets [] = Inr []"
| "parse_octets (w # ws) =
     (case parse_octet w of
        Inl e \<Rightarrow> Inl e
      | Inr b \<Rightarrow> (case parse_octets ws of Inl e \<Rightarrow> Inl e | Inr bs \<Rightarrow> Inr (b # bs)))"

text \<open>\<^verbatim>\<open>int.from_bytes(bs, 'big')\<close>.\<close>

definition from_bytes_big :: "nat list \<Rightarrow> nat" where
  "from_bytes_big bs = foldl (\<lambda>a b. 256 * a + b) 0 bs"

definition ip_int_from_string :: "string \<Rightarrow> error + nat" where
  "ip_int_from_string ip_str =
     (if ip_str = [] then Inl AddressValueError
      else let octets = str_split (CHR ''.'') ip_str
           in if length octets \<noteq> 4 then Inl AddressValueError
              else (case parse_octets octets of
                      Inl e \<Rightarrow> Inl AddressValueError
                    | Inr bs \<Rightarrow> Inr (from_bytes_big bs)))"

text \<open>\<^verbatim>\<open>IPv4Address(addr)\<close> for a string.\<close>

definition IPv4Address :: "string \<Rightarrow> error + nat" where
  "IPv4Address addr_str =
     (if CHR ''/'' \<in> set addr_str then Inl AddressValueError
      else ip_int_from_string addr_str)"

text \<open>The number of zero bits at the right of a positive number.\<close>

fun trailing_zero_bits :: "nat \<Rightarrow> nat" where
  "trailing_zero_bits n =
     (if n = 0 then 0 else if even n then Suc (trailing_zero_bits (n div 2)) else 0)"

declare trailing_zero_bits.simps [simp del]

definition count_righthand_zero_bits :: "nat \<Rightarrow> nat \<Rightarrow> nat" where
  "count_righthand_zero_bits number bits =
     (if number = 0 then bits else min bits (trailing_zero_bits number))"

definition prefix_from_ip_int :: "nat \<Rightarrow> error + nat" where
  "prefix_from_ip_int ip_int =
     (let trailing_zeroes = count_righthand_zero_bits ip_int 32;
          prefixlen = 32 - trailing_zeroes;
          leading_ones = drop_bit trailing_zeroes ip_int;
          all_ones = 2 ^ prefixlen - 1
      in if leading_ones \<noteq> all_ones then Inl ValueError else Inr prefixlen)"

definition prefix_from_prefix_string :: "string \<Rightarrow> error + nat" where
  "prefix_from_prefix_string prefixlen_str =
     (if \<not> (prefixlen_str \<noteq> [] \<and> list_all is_ascii_digit prefixlen_str)
      then Inl NetmaskValueError
      else if digits_value prefixlen_str \<le> 32 then Inr (digits_value prefixlen_str)
      else Inl NetmaskValueError)"

definition prefix_from_ip_string :: "string \<Rightarrow> error + nat" where
  "prefix_from_ip_string ip_str =
     (case ip_int_from_string ip_str of
        Inl e \<Rightarrow> Inl NetmaskValueError
      | Inr ip_int \<Rightarrow>
          (case prefix_from_ip_int ip_int of
             Inr p \<Rightarrow> Inr p
           | Inl e \<Rightarrow>
               (case prefix_from_ip_int (ip_int XOR ALL_ONES) of
                  Inr p \<Rightarrow> Inr p
                | Inl e' \<Rightarrow> Inl NetmaskValueError)))"

text \<open>
  \<^verbatim>\<open>_make_netmask\<close>: the mask is absent (then the prefix length is 32), a prefix length
  in digits, or a netmask or hostmask in dotted-quad form.
\<close>

definition make_netmask :: "string option \<Rightarrow> error + nat" where
  "make_netmask arg =
     (case arg of
        None \<Rightarrow> Inr 32
      | Some mask_str \<Rightarrow>
          (case prefix_from_prefix_string mask_str of
             Inr p \<Rightarrow> Inr p
           | Inl e \<Rightarrow> prefix_from_ip_string mask_str))"

definition ip_int_from_prefix :: "nat \<Rightarrow> nat" where
  "ip_int_from_prefix prefixlen = ALL_ONES XOR drop_bit prefixlen ALL_ONES"

record ipv4network =
  network_address :: nat
  netmask :: nat
  prefixlen :: nat

definition IPv4Network :: "string \<Rightarrow> error + ipv4network" where
  "IPv4Network address =
     (let addr = str_split (CHR ''/'') address
      in if length addr > 2 then Inl AddressValueError
         else let mask_str = (if length addr > 1 then Some (addr ! 1) else None)
              in (case IPv4Address (addr ! 0) of
                    Inl e \<Rightarrow> Inl e
                  | Inr packed \<Rightarrow>
                      (case make_netmask mask_str of
                         Inl e \<Rightarrow> Inl e
                       | Inr p \<Rightarrow>
                           if packed AND ip_int_from_prefix p \<noteq> packed then Inl ValueError
                           else Inr \<lparr>network_address = packed,
                                     netmask = ip_int_from_prefix p,
                                     prefixlen = p\<rparr>)))"

text \<open>
  Iterating over a network yields every address from the network address to the
  broadcast address, both included.
\<close>

definition broadcast_address :: "ipv4network \<Rightarrow> nat" where
  "broadcast_address net = network_address net OR (netmask net XOR ALL_ONES)"

definition network_iter :: "ipv4network \<Rightarrow> nat list" where
  "network_iter net = [network_address net ..< Suc (broadcast_address net)]"

text \<open>\<^verbatim>\<open>str(ip)\<close>: \<^verbatim>\<open>'.'.join(map(str, ip_int.to_bytes(4, 'big')))\<close>.\<close>

definition to_bytes4 :: "nat \<Rightarrow> nat list" where
  "to_bytes4 n = [n div 2 ^ 24 mod 256, n div 2 ^ 16 mod 256, n div 2 ^ 8 mod 256, n mod 256]"

definition str_ip :: "nat \<Rightarrow> string" where
  "str_ip ip_int = str_join (CHR ''.'') (map str_nat (to_bytes4 ip_int))"

subsection \<open>Building the target list of one range\<close>

text \<open>
  \<^verbatim>\<open>final_octet == skip\<close>: an integer never equals a string.
\<close>

fun octet_eq_skip :: "int \<Rightarrow> skip_value \<Rightarrow> bool" where
  "octet_eq_skip final_octet (SkipInt k) = (final_octet = k)"
| "octet_eq_skip final_octet (SkipStr s) = False"

text \<open>
  The loop of lines 47--53 (and again 55--61) over the addresses of a network, with
  the list \<^verbatim>\<open>ips1\<close> as accumulator.
\<close>

fun collect_targets :: "skip_value \<Rightarrow> nat list \<Rightarrow> target list \<Rightarrow> error + target list" where
  "collect_targets skip [] ips = Inr ips"
| "collect_targets skip (ip # rest) ips =
     (let ip_str = str_ip ip;
          octets = str_split (CHR ''.'') ip_str
      in if length octets \<le> 3 then Inl IndexError
         else (case py_int (octets ! 3) of
                 Inl e \<Rightarrow> Inl e
               | Inr final_octet \<Rightarrow>
                   if final_octet = 0 \<or> octet_eq_skip final_octet skip
                   then collect_targets skip rest ips
                   else collect_targets skip rest (ips @ [(final_octet, ip_str)])))"

definition enumerate_targets :: "string \<Rightarrow> skip_value \<Rightarrow> error + target list" where
  "enumerate_targets cidr skip =
     (case IPv4Network cidr of
        Inl e \<Rightarrow> Inl e
      | Inr net \<Rightarrow> collect_targets skip (network_iter net) [])"

subsection \<open>\<^verbatim>\<open>ping_thread\<close>: probing one target\<close>

text \<open>
  \<^verbatim>\<open>get_returncode(ip, response)\<close> is the seam the tests replace. It is called once per
  attempt, so whatever it returns during a run is a function of the target and the
  attempt number: the return codes of a run are given as such a function.
\<close>

type_synonym returncodes = "target \<Rightarrow> nat \<Rightarrow> int"

text \<open>
  The loop \<^verbatim>\<open>while attempt < 4\<close> of lines 113--129. The state is the trace and the
  shared list \<^verbatim>\<open>faillist\<close>.
\<close>

function ping_attempts ::
  "returncodes \<Rightarrow> target \<Rightarrow> nat \<Rightarrow> trace \<times> target list \<Rightarrow> trace \<times> target list" where
  "ping_attempts get_returncode ip attempt (tr, faillist) =
     (if attempt < 4 then
        (if get_returncode ip attempt = 0
         then (tr @ [Ping (snd ip), Print (IsUpMsg (snd ip))], faillist)
         else if get_returncode ip attempt \<noteq> 0 \<and> attempt = 3
         then (tr @ [Ping (snd ip), Print (IsDownMsg (snd ip))], faillist @ [ip])
         else ping_attempts get_returncode ip (attempt + 1)
                (tr @ [Ping (snd ip), Print (FailedAttemptMsg (snd ip) attempt)], faillist))
      else (tr, faillist))"
  by pat_completeness auto
termination
  by (relation "measure (\<lambda>(get_returncode, ip, attempt, st). 4 - attempt)") auto

declare ping_attempts.simps [simp del]

text \<open>
  One round of the worker's \<^verbatim>\<open>while True\<close> loop, for the target \<^verbatim>\<open>ip\<close> that
  \<^verbatim>\<open>q.get()\<close> handed to it.
\<close>

definition ping_thread :: "returncodes \<Rightarrow> target \<Rightarrow> trace \<times> target list \<Rightarrow> trace \<times> target list" where
  "ping_thread get_returncode ip st = ping_attempts get_returncode ip 1 st"

subsection \<open>A pool of workers draining one queue\<close>

text \<open>
  Twenty daemon threads take targets from the queue; \<^verbatim>\<open>q.join()\<close> returns when
  \<^verbatim>\<open>task_done\<close> has been called for every target that was put. Which worker finishes
  which target first is the scheduler's choice. The choices are a list of numbers: at
  each step the next target to finish is the one at that position (modulo the number
  left) among those not yet finished; with no choices left, the rest finishes in queue
  order.
\<close>

fun remove_nth :: "nat \<Rightarrow> 'a list \<Rightarrow> 'a list" where
  "remove_nth i xs = take i xs @ drop (Suc i) xs"

fun completion_order :: "nat list \<Rightarrow> 'a list \<Rightarrow> 'a list" where
  "completion_order choices [] = []"
| "completion_order [] (x # xs) = x # xs"
| "completion_order (c # choices) (x # xs) =
     (let i = c mod length (x # xs)
      in (x # xs) ! i # completion_order choices (remove_nth i (x # xs)))"

definition run_pool ::
  "returncodes \<Rightarrow> nat list \<Rightarrow> target list \<Rightarrow> trace \<Rightarrow> trace \<times> target list" where
  "run_pool get_returncode choices ips tr =
     foldl (\<lambda>st ip. ping_thread get_returncode ip st) (tr, []) (completion_order choices ips)"

subsection \<open>\<^verbatim>\<open>print_results\<close>: classification of the two failure lists\<close>

text \<open>
  The first loop of \<^verbatim>\<open>print_results\<close> (lines 177--182) walks the octets of the first
  failure list and appends each to one of two lists.
\<close>

fun classify_loop1 :: "int list \<Rightarrow> int list \<Rightarrow> int list \<times> int list \<Rightarrow> int list \<times> int list" where
  "classify_loop1 [] failed_ips2_octets (excl, common) = (excl, common)"
| "classify_loop1 (octet # rest) failed_ips2_octets (excl, common) =
     (if octet \<notin> set failed_ips2_octets
      then classify_loop1 rest failed_ips2_octets (excl @ [octet], common)
      else classify_loop1 rest failed_ips2_octets (excl, common @ [octet]))"

text \<open>The second loop (lines 184--187).\<close>

fun classify_loop2 :: "int list \<Rightarrow> int list \<Rightarrow> int list \<Rightarrow> int list" where
  "classify_loop2 [] failed_ips1_octets excl = excl"
| "classify_loop2 (octet # rest) failed_ips1_octets excl =
     (if octet \<notin> set failed_ips1_octets
      then classify_loop2 rest failed_ips1_octets (excl @ [octet])
      else classify_loop2 rest failed_ips1_octets excl)"

type_synonym result = "target list \<times> target list \<times> int list \<times> int list \<times> int list"

definition print_results ::
  "string \<Rightarrow> target list \<Rightarrow> string \<Rightarrow> target list \<Rightarrow> trace \<Rightarrow> trace \<times> result" where
  "print_results cidr1 failed_ips1 cidr2 failed_ips2 tr =
     (let failed_ips1_octets = map fst failed_ips1;
          failed_ips2_octets = map fst failed_ips2;
          failed_ips1_addrs = map snd failed_ips1;
          failed_ips2_addrs = map snd failed_ips2;
          (excl1, common) = classify_loop1 failed_ips1_octets failed_ips2_octets ([], []);
          excl2 = classify_loop2 failed_ips2_octets failed_ips1_octets [];
          failed_ips1_excl_octets = sort excl1;
          failed_ips2_excl_octets = sort excl2;
          failed_ips_common_octets = sort common;
          tr' = (if failed_ips1 = [] \<and> failed_ips2 = []
                 then tr @ [Print (NoFailuresMsg cidr1 cidr2)]
                 else tr @ [Print (FailedRequestsMsg cidr1 failed_ips1_addrs),
                            Print (FailedRequestsMsg cidr2 failed_ips2_addrs),
                            Print (OnlyOctetsMsg cidr1 cidr2 failed_ips1_excl_octets),
                            Print (OnlyOctetsMsg cidr2 cidr1 failed_ips2_excl_octets),
                            Print (CommonOctetsMsg cidr1 cidr2 failed_ips_common_octets)])
      in (tr', (failed_ips1, failed_ips2, failed_ips1_excl_octets,
                failed_ips2_excl_octets, failed_ips_common_octets)))"

text \<open>The three derived sequences of the result tuple.\<close>

definition onlyA :: "result \<Rightarrow> int list" where
  "onlyA r = (case r of (f1, f2, e1, e2, c) \<Rightarrow> e1)"

definition onlyB :: "result \<Rightarrow> int list" where
  "onlyB r = (case r of (f1, f2, e1, e2, c) \<Rightarrow> e2)"

definition common_octets :: "result \<Rightarrow> int list" where
  "common_octets r = (case r of (f1, f2, e1, e2, c) \<Rightarrow> c)"

definition failuresA :: "result \<Rightarrow> target list" where
  "failuresA r = (case r of (f1, f2, e1, e2, c) \<Rightarrow> f1)"

definition failuresB :: "result \<Rightarrow> target list" where
  "failuresB r = (case r of (f1, f2, e1, e2, c) \<Rightarrow> f2)"

subsection \<open>\<^verbatim>\<open>initiate_ping_queues\<close>\<close>

text \<open>
  What a run depends on besides its arguments: the return codes each pool observes and
  the scheduler's choices in each pool.
\<close>

record environment =
  returncodes1 :: returncodes
  returncodes2 :: returncodes
  choices1 :: "nat list"
  choices2 :: "nat list"

definition initiate_ping_queues ::
  "environment \<Rightarrow> string \<Rightarrow> string \<Rightarrow> skip_value \<Rightarrow> trace \<Rightarrow> trace \<times> (error + result)" where
  "initiate_ping_queues env cidr1 cidr2 skip tr =
     (case enumerate_targets cidr1 skip of
        Inl e \<Rightarrow> (tr, Inl e)
      | Inr ips1 \<Rightarrow>
          (case enumerate_targets cidr2 skip of
             Inl e \<Rightarrow> (tr, Inl e)
           | Inr ips2 \<Rightarrow>
               (let (tr1, failed_ips1) = run_pool (returncodes1 env) (choices1 env) ips1 tr;
                    (tr2, failed_ips2) = run_pool (returncodes2 env) (choices2 env) ips2 tr1;
                    (tr3, res) = print_results cidr1 failed_ips1 cidr2 failed_ips2 tr2
                in (tr3, Inr res))))"

subsection \<open>\<^verbatim>\<open>main\<close>\<close>

text \<open>
  \<^verbatim>\<open>getopt.getopt(argv, "h", ["cidr1=", "cidr2=", "skip="])\<close> either raises
  \<^verbatim>\<open>GetoptError\<close> or returns the list of (option, argument) pairs; \<^verbatim>\<open>main\<close> is
  modelled from that point on.
\<close>

datatype getopt_result = GetoptError | Opts "(string \<times> string) list"

type_synonym config = "string \<times> string \<times> skip_value"

text \<open>
  The loop \<^verbatim>\<open>for opt, arg in opts\<close> of lines 230--255. The clause
  \<^verbatim>\<open>except ValueError or AssertionError\<close> catches \<^verbatim>\<open>ValueError\<close> only, since
  \<^verbatim>\<open>ValueError or AssertionError\<close> evaluates to \<^verbatim>\<open>ValueError\<close>: a failed \<^verbatim>\<open>assert\<close>
  leaves \<^verbatim>\<open>main\<close> as an \<^verbatim>\<open>AssertionError\<close>.
\<close>

fun process_opts :: "(string \<times> string) list \<Rightarrow> config \<Rightarrow> trace \<Rightarrow> trace \<times> (error + config)" where
  "process_opts [] cfg tr = (tr, Inr cfg)"
| "process_opts ((opt, arg) # rest) (cidr1, cidr2, skip) tr =
     (if opt = ''-h'' then (tr @ [Print HelpMsg], Inl (SystemExit None))
      else if str_in opt ''--cidr1'' then
        (if last3 arg \<noteq> ''/24'' then (tr @ [Print Cidr24OnlyMsg], Inl (SystemExit None))
         else process_opts rest (arg, cidr2, skip) tr)
      else if str_in opt ''--cidr2'' then
        (if last3 arg \<noteq> ''/24'' then (tr @ [Print Cidr24OnlyMsg], Inl (SystemExit None))
         else process_opts rest (cidr1, arg, skip) tr)
      else if str_in opt ''--skip'' then
        (case py_int arg of
           Inl e \<Rightarrow> (tr @ [Print SkipOctetMsg], Inl (SystemExit None))
         | Inr v \<Rightarrow>
             if 0 \<le> v \<and> v \<le> 255 then process_opts rest (cidr1, cidr2, SkipInt v) tr
             else (tr, Inl AssertionError))
      else (tr, Inl AssertionError))"

definition default_config :: config where
  "default_config = (''192.168.1.0/24'', ''192.168.2.0/24'', SkipStr [])"

definition main :: "environment \<Rightarrow> getopt_result \<Rightarrow> trace \<times> (error + result)" where
  "main env parsed =
     (case parsed of
        GetoptError \<Rightarrow> ([Print UsageMsg], Inl (SystemExit (Some 2)))
      | Opts opts \<Rightarrow>
          (case process_opts opts default_config [] of
             (tr, Inl e) \<Rightarrow> (tr, Inl e)
           | (tr, Inr (cidr1, cidr2, skip)) \<Rightarrow>
               initiate_ping_queues env cidr1 cidr2 skip
                 (tr @ [Print BlankMsg, Print (Cidr1Msg cidr1), Print (Cidr2Msg cidr2)])))"

text \<open>The \<^verbatim>\<open>ping\<close> subprocesses a trace records, by the address pinged.\<close>

definition pings :: "trace \<Rightarrow> string list" where
  "pings tr = concat (map (\<lambda>ev. case ev of Ping a \<Rightarrow> [a] | Print m \<Rightarrow> []) tr)"

subsection \<open>The test doubles of \<^verbatim>\<open>test_mpts.py\<close>\<close>

text \<open>
  The tests replace \<^verbatim>\<open>get_returncode\<close> by a mock with a fixed \<^verbatim>\<open>return_value\<close>: every
  attempt on every target then sees that return code.
\<close>

definition mock_returncode :: "int \<Rightarrow> returncodes" where
  "mock_returncode return_value ip attempt = return_value"

definition mock_environment :: "int \<Rightarrow> nat list \<Rightarrow> nat list \<Rightarrow> environment" where
  "mock_environment return_value cs1 cs2 =
     \<lparr>returncodes1 = mock_returncode return_value,
      returncodes2 = mock_returncode return_value,
      choices1 = cs1, choices2 = cs2\<rparr>"

text \<open>The sizes of the five components of a result tuple.\<close>

definition result_sizes :: "result \<Rightarrow> nat \<times> nat \<times> nat \<times> nat \<times> nat" where
  "result_sizes r =
     (length (failuresA r), length (failuresB r),
      length (onlyA r), length (onlyB r), length (common_octets r))"

subsection \<open>Range specifications as \<^verbatim>\<open>main\<close> sees them\<close>

text \<open>
  A range specification denotes a block of exactly 256 addresses when \<^verbatim>\<open>IPv4Network\<close>
  accepts it and iterating over the network yields 256 addresses.
\<close>

definition denotes_block_256 :: "string \<Rightarrow> bool" where
  "denotes_block_256 cidr =
     (case IPv4Network cidr of Inl e \<Rightarrow> False | Inr net \<Rightarrow> length (network_iter net) = 256)"

text \<open>
  The values that the assignments \<^verbatim>\<open>cidr1 = arg\<close> and \<^verbatim>\<open>cidr2 = arg\<close> of the option loop
  leave in the two variables when the loop runs through the whole option list: the
  last argument given for each range, or the initial value.
\<close>

fun final_cidrs :: "(string \<times> string) list \<Rightarrow> string \<times> string \<Rightarrow> string \<times> string" where
  "final_cidrs [] (cidr1, cidr2) = (cidr1, cidr2)"
| "final_cidrs ((opt, arg) # rest) (cidr1, cidr2) =
     (if str_in opt ''--cidr1'' then final_cidrs rest (arg, cidr2)
      else if str_in opt ''--cidr2'' then final_cidrs rest (cidr1, arg)
      else final_cidrs rest (cidr1, cidr2))"

section \<open>Properties\<close>

subsection \<open>Classification\<close>

lemma classify_loop1_eq:
  "classify_loop1 xs ys (e, c) =
     (e @ filter (\<lambda>x. x \<notin> set ys) xs, c @ filter (\<lambda>x. x \<in> set ys) xs)"
  by (induction xs arbitrary: e c) simp_all

lemma classify_loop2_eq:
  "classify_loop2 ys xs e = e @ filter (\<lambda>y. y \<notin> set xs) ys"
  by (induction ys arbitrary: e) simp_all

lemma print_results_result:
  "snd (print_results c1 f1 c2 f2 tr) =
     (f1, f2,
      sort (filter (\<lambda>x. x \<notin> fst ` set f2) (map fst f1)),
      sort (filter (\<lambda>y. y \<notin> fst ` set f1) (map fst f2)),
      sort (filter (\<lambda>x. x \<in> fst ` set f2) (map fst f1)))"
  by (simp add: print_results_def Let_def classify_loop1_eq classify_loop2_eq)

lemma sort_filter_distinct:
  fixes xs :: "int list"
  assumes "distinct xs"
  shows "sort (filter P xs) = sorted_list_of_set {x \<in> set xs. P x}"
proof -
  have "sorted_list_of_set (set (filter P xs)) = sort (remdups (filter P xs))"
    by (rule sorted_list_of_set_sort_remdups)
  with assms show ?thesis by (simp add: distinct_remdups_id)
qed

text \<open>
  Claim C1. For any two failure lists, the three sequences that \<^verbatim>\<open>print_results\<close>
  returns are sorted in ascending order; \<open>onlyA\<close> holds exactly the offsets of the first
  list that are not offsets of the second, \<open>onlyB\<close> exactly the offsets of the second
  that are not offsets of the first, \<open>common\<close> exactly the offsets of both. Only the
  offsets decide; the addresses play no part. An offset is listed as often as it occurs
  in the list it is taken from (\<open>common\<close> is taken from the first list), so when the
  offsets of a list are distinct, as in every list a sweep builds, the sequence is the
  sorted enumeration of the corresponding set.
\<close>

theorem classification_sequences:
  fixes failed_ips1 failed_ips2 :: "target list" and cidr1 cidr2 :: string and tr :: trace
  defines "r \<equiv> snd (print_results cidr1 failed_ips1 cidr2 failed_ips2 tr)"
  defines "A \<equiv> fst ` set failed_ips1" and "B \<equiv> fst ` set failed_ips2"
  shows "(sorted (onlyA r) \<and> sorted (onlyB r) \<and> sorted (common_octets r))
       \<and> (set (onlyA r) = A - B \<and> set (onlyB r) = B - A \<and> set (common_octets r) = A \<inter> B)
       \<and> mset (onlyA r) = filter_mset (\<lambda>x. x \<notin> B) (mset (map fst failed_ips1))
       \<and> mset (onlyB r) = filter_mset (\<lambda>x. x \<notin> A) (mset (map fst failed_ips2))
       \<and> mset (common_octets r) = filter_mset (\<lambda>x. x \<in> B) (mset (map fst failed_ips1))
       \<and> (distinct (map fst failed_ips1) \<longrightarrow>
            onlyA r = sorted_list_of_set (A - B) \<and> common_octets r = sorted_list_of_set (A \<inter> B))
       \<and> (distinct (map fst failed_ips2) \<longrightarrow> onlyB r = sorted_list_of_set (B - A))"
proof -
  have r: "r = (failed_ips1, failed_ips2,
      sort (filter (\<lambda>x. x \<notin> B) (map fst failed_ips1)),
      sort (filter (\<lambda>y. y \<notin> A) (map fst failed_ips2)),
      sort (filter (\<lambda>x. x \<in> B) (map fst failed_ips1)))"
    unfolding r_def A_def B_def by (rule print_results_result)
  have srt: "sorted (onlyA r) \<and> sorted (onlyB r) \<and> sorted (common_octets r)"
    by (simp add: r onlyA_def onlyB_def common_octets_def)
  have sets: "set (onlyA r) = A - B \<and> set (onlyB r) = B - A \<and> set (common_octets r) = A \<inter> B"
    by (auto simp: r onlyA_def onlyB_def common_octets_def A_def B_def)
  have m1: "mset (onlyA r) = filter_mset (\<lambda>x. x \<notin> B) (mset (map fst failed_ips1))"
    by (simp add: r onlyA_def)
  have m2: "mset (onlyB r) = filter_mset (\<lambda>x. x \<notin> A) (mset (map fst failed_ips2))"
    by (simp add: r onlyB_def)
  have m3: "mset (common_octets r) = filter_mset (\<lambda>x. x \<in> B) (mset (map fst failed_ips1))"
    by (simp add: r common_octets_def)
  have d1: "onlyA r = sorted_list_of_set (A - B) \<and> common_octets r = sorted_list_of_set (A \<inter> B)"
    if d: "distinct (map fst failed_ips1)"
  proof -
    have "{x \<in> set (map fst failed_ips1). x \<notin> B} = A - B"
      and "{x \<in> set (map fst failed_ips1). x \<in> B} = A \<inter> B"
      by (auto simp: A_def)
    with sort_filter_distinct[OF d, of "\<lambda>x. x \<notin> B"] sort_filter_distinct[OF d, of "\<lambda>x. x \<in> B"]
    show ?thesis by (simp add: r onlyA_def common_octets_def)
  qed
  have d2: "onlyB r = sorted_list_of_set (B - A)" if d: "distinct (map fst failed_ips2)"
  proof -
    have "{x \<in> set (map fst failed_ips2). x \<notin> A} = B - A" by (auto simp: B_def)
    with sort_filter_distinct[OF d, of "\<lambda>x. x \<notin> A"] show ?thesis by (simp add: r onlyB_def)
  qed
  from srt sets m1 m2 m3 d1 d2 show ?thesis by blast
qed

theorem classification_sequences_witness:
  "onlyA (snd (print_results ''10.0.0.0/24'' [(3, ''10.0.0.3''), (1, ''10.0.0.1''), (2, ''10.0.0.2'')]
                 ''10.0.1.0/24'' [(2, ''10.0.1.2''), (7, ''10.0.1.7'')] [])) = [1, 3]
   \<and> onlyB (snd (print_results ''10.0.0.0/24'' [(3, ''10.0.0.3''), (1, ''10.0.0.1''), (2, ''10.0.0.2'')]
                 ''10.0.1.0/24'' [(2, ''10.0.1.2''), (7, ''10.0.1.7'')] [])) = [7]
   \<and> common_octets (snd (print_results ''10.0.0.0/24'' [(3, ''10.0.0.3''), (1, ''10.0.0.1''), (2, ''10.0.0.2'')]
                 ''10.0.1.0/24'' [(2, ''10.0.1.2''), (7, ''10.0.1.7'')] [])) = [2]"
proof -
  have d1: "distinct (map fst [(3::int, ''10.0.0.3''), (1, ''10.0.0.1''), (2, ''10.0.0.2'')])"
    by simp
  have d2: "distinct (map fst [(2::int, ''10.0.1.2''), (7, ''10.0.1.7'')])"
    by simp
  have s1: "fst ` set [(3::int, ''10.0.0.3''), (1, ''10.0.0.1''), (2, ''10.0.0.2'')]
              - fst ` set [(2::int, ''10.0.1.2''), (7, ''10.0.1.7'')] = {1, 3}"
    by auto
  have s2: "fst ` set [(2::int, ''10.0.1.2''), (7, ''10.0.1.7'')]
              - fst ` set [(3::int, ''10.0.0.3''), (1, ''10.0.0.1''), (2, ''10.0.0.2'')] = {7}"
    by auto
  have s3: "fst ` set [(3::int, ''10.0.0.3''), (1, ''10.0.0.1''), (2, ''10.0.0.2'')]
              \<inter> fst ` set [(2::int, ''10.0.1.2''), (7, ''10.0.1.7'')] = {2}"
    by auto
  show ?thesis
    using classification_sequences
      [of "''10.0.0.0/24''" "[(3, ''10.0.0.3''), (1, ''10.0.0.1''), (2, ''10.0.0.2'')]"
          "''10.0.1.0/24''" "[(2, ''10.0.1.2''), (7, ''10.0.1.7'')]" "[]"]
      d1 d2
    unfolding s1 s2 s3 by simp
qed

text \<open>
  Claim C10. The three sequences that \<^verbatim>\<open>print_results\<close> returns have pairwise no offset
  in common, and the first two components of the returned tuple are the two failure
  lists it was given, unchanged.
\<close>

theorem classification_disjoint_inputs_unchanged:
  fixes failed_ips1 failed_ips2 :: "target list" and cidr1 cidr2 :: string and tr :: trace
  defines "r \<equiv> snd (print_results cidr1 failed_ips1 cidr2 failed_ips2 tr)"
  shows "set (onlyA r) \<inter> set (onlyB r) = {}
       \<and> set (onlyA r) \<inter> set (common_octets r) = {}
       \<and> set (onlyB r) \<inter> set (common_octets r) = {}
       \<and> failuresA r = failed_ips1 \<and> failuresB r = failed_ips2"
  unfolding r_def print_results_result
  by (auto simp: onlyA_def onlyB_def common_octets_def failuresA_def failuresB_def)

subsection \<open>Strings and the target list\<close>

lemma str_split_not_Nil: "str_split sep s \<noteq> []"
  by (induction s) (auto split: list.splits)

lemma str_split_no_sep: "sep \<notin> set s \<Longrightarrow> str_split sep s = [s]"
  by (induction s) auto

lemma str_split_word_sep:
  "sep \<notin> set w \<Longrightarrow> str_split sep (w @ sep # rest) = w # str_split sep rest"
  by (induction w) auto

lemma str_split_snoc_word:
  "sep \<notin> set w \<Longrightarrow> str_split sep (pre @ sep # w) = str_split sep pre @ [w]"
proof (induction pre)
  case Nil
  then show ?case by (simp add: str_split_no_sep)
next
  case (Cons c pre)
  then show ?case
    using str_split_not_Nil[of sep pre] by (auto split: list.splits)
qed

lemma of_char_digit_char:
  assumes "d < 10"
  shows "(of_char (digit_char d) :: nat) = 48 + d"
proof -
  from assms have "d \<in> {0, 1, 2, 3, 4, 5, 6, 7, 8, 9}" by auto
  then show ?thesis by (auto simp: digit_char_def)
qed

lemma is_ascii_digit_digit_char: "d < 10 \<Longrightarrow> is_ascii_digit (digit_char d)"
  by (simp add: is_ascii_digit_def of_char_digit_char)

lemma str_nat_digits: "list_all is_ascii_digit (str_nat n)"
proof (induction n rule: str_nat.induct)
  case (1 n)
  show ?case
  proof (cases "n < 10")
    case True
    then show ?thesis by (subst str_nat.simps) (simp add: is_ascii_digit_digit_char)
  next
    case False
    with 1 show ?thesis
      by (subst str_nat.simps) (simp add: is_ascii_digit_digit_char)
  qed
qed

lemma str_nat_not_Nil: "str_nat n \<noteq> []"
  by (subst str_nat.simps) simp

lemma digits_value_snoc: "digits_value (ds @ [c]) = 10 * digits_value ds + (of_char c - 48)"
  by (simp add: digits_value_def)

lemma digits_value_str_nat: "digits_value (str_nat n) = n"
proof (induction n rule: str_nat.induct)
  case (1 n)
  show ?case
  proof (cases "n < 10")
    case True
    then show ?thesis by (subst str_nat.simps) (simp add: digits_value_def of_char_digit_char)
  next
    case False
    with 1 have "digits_value (str_nat (n div 10)) = n div 10" by simp
    with False show ?thesis
      by (subst str_nat.simps) (simp add: digits_value_snoc of_char_digit_char)
  qed
qed

lemma is_ascii_digit_not_space: "is_ascii_digit c \<Longrightarrow> \<not> py_isspace c"
  by (auto simp: is_ascii_digit_def py_isspace_def Let_def)

lemma is_ascii_digit_neq:
  "is_ascii_digit c \<Longrightarrow> c \<noteq> CHR ''-'' \<and> c \<noteq> CHR ''+'' \<and> c \<noteq> CHR ''_'' \<and> c \<noteq> CHR ''.'' \<and> c \<noteq> CHR ''/''"
  by (auto simp: is_ascii_digit_def)

lemma py_strip_digits:
  assumes "list_all is_ascii_digit ds"
  shows "py_strip ds = ds"
proof (cases ds rule: rev_cases)
  case Nil
  then show ?thesis by (simp add: py_strip_def)
next
  case (snoc ys y)
  with assms have y: "\<not> py_isspace y" by (simp add: is_ascii_digit_not_space)
  show ?thesis
  proof (cases ds)
    case Nil
    then show ?thesis by (simp add: py_strip_def)
  next
    case (Cons x xs)
    with assms have "\<not> py_isspace x" by (simp add: is_ascii_digit_not_space)
    with Cons have "dropWhile py_isspace ds = ds" by simp
    with snoc y show ?thesis by (simp add: py_strip_def)
  qed
qed

lemma digits_no_char: "list_all is_ascii_digit ds \<Longrightarrow> c \<in> {CHR ''_'', CHR ''.'', CHR ''/''} \<Longrightarrow> c \<notin> set ds"
  using is_ascii_digit_neq by (auto simp: list_all_iff)

lemma py_int_digits:
  assumes "list_all is_ascii_digit ds" and "ds \<noteq> []"
  shows "py_int ds = Inr (int (digits_value ds))"
proof -
  from assms obtain c cs where ds: "ds = c # cs" by (cases ds) auto
  with assms have c: "c \<noteq> CHR ''-''" "c \<noteq> CHR ''+''"
    using is_ascii_digit_neq by auto
  have "str_split (CHR ''_'') ds = [ds]"
    using assms(1) by (intro str_split_no_sep digits_no_char) auto
  with assms c ds show ?thesis
    by (simp add: py_int_def py_strip_digits Let_def)
qed

lemma py_int_str_nat: "py_int (str_nat n) = Inr (int n)"
  by (simp add: py_int_digits str_nat_digits str_nat_not_Nil digits_value_str_nat)

lemma str_split_str_ip: "str_split (CHR ''.'') (str_ip ip) = map str_nat (to_bytes4 ip)"
proof -
  have nd: "CHR ''.'' \<notin> set (str_nat n)" for n
    by (rule digits_no_char[OF str_nat_digits]) simp
  show ?thesis
    by (simp add: str_ip_def to_bytes4_def str_split_word_sep nd str_split_no_sep)
qed

lemma collect_targets_eq:
  "collect_targets skip ips acc =
     Inr (acc @ map (\<lambda>ip. (int (ip mod 256), str_ip ip))
                  (filter (\<lambda>ip. ip mod 256 \<noteq> 0 \<and> \<not> octet_eq_skip (int (ip mod 256)) skip) ips))"
proof (induction ips arbitrary: acc)
  case Nil
  show ?case by simp
next
  case (Cons ip ips)
  have "str_split (CHR ''.'') (str_ip ip) ! 3 = str_nat (ip mod 256)"
    by (simp add: str_split_str_ip to_bytes4_def)
  moreover have "length (str_split (CHR ''.'') (str_ip ip)) = 4"
    by (simp add: str_split_str_ip to_bytes4_def)
  ultimately show ?case
    by (simp add: Cons.IH py_int_str_nat Let_def)
qed

subsection \<open>Networks of prefix length 24\<close>

lemma ip_int_from_prefix_24: "ip_int_from_prefix 24 = 4294967040"
  by (simp add: ip_int_from_prefix_def ALL_ONES_def drop_bit_eq_div)

lemma hostmask_24: "(4294967040::nat) XOR ALL_ONES = 255"
  by (simp add: ALL_ONES_def)

lemma and_255: "(n::nat) AND 255 = n mod 256"
  using take_bit_eq_mask[of 8 n] by (simp add: take_bit_eq_mod mask_eq_exp_minus_1)

lemma netmask24_aligned:
  assumes "(base::nat) AND 4294967040 = base"
  shows "base mod 256 = 0"
proof -
  have "base AND 255 = (base AND 4294967040) AND 255" using assms by simp
  also have "\<dots> = base AND (4294967040 AND 255)" by (simp only: and.assoc)
  also have "\<dots> = 0" by simp
  finally show ?thesis by (simp add: and_255)
qed

lemma or_255:
  assumes "(base::nat) mod 256 = 0"
  shows "base OR 255 = base + 255"
proof -
  from assms have "base AND 255 = 0" by (simp add: and_255)
  then show ?thesis by (simp add: disjunctive_add_eq_or)
qed

lemma IPv4Network_24:
  assumes "IPv4Network cidr = Inr net" and "prefixlen net = 24"
  shows "network_address net mod 256 = 0"
    and "network_iter net = [network_address net ..< network_address net + 256]"
proof -
  from assms have nm: "netmask net = 4294967040"
    and al: "network_address net AND 4294967040 = network_address net"
    by (auto simp: IPv4Network_def Let_def ip_int_from_prefix_24 split: sum.splits if_splits)
  from al show m: "network_address net mod 256 = 0" by (rule netmask24_aligned)
  have "Suc (network_address net + 255) = network_address net + 256" by simp
  then show "network_iter net = [network_address net ..< network_address net + 256]"
    by (simp only: network_iter_def broadcast_address_def nm hostmask_24 or_255[OF m])
qed

lemma to_bytes4_block:
  assumes "base mod 256 = 0" and "k < 256"
  shows "to_bytes4 (base + k) = take 3 (to_bytes4 base) @ [k]"
proof -
  from assms have d: "(base + k) div 256 = base div 256" by (simp add: div_add1_eq)
  have "(base + k) div 2 ^ 24 = (base + k) div 256 div 2 ^ 16"
    and "(base + k) div 2 ^ 16 = (base + k) div 256 div 2 ^ 8"
    and "base div 2 ^ 24 = base div 256 div 2 ^ 16"
    and "base div 2 ^ 16 = base div 256 div 2 ^ 8"
    by (simp_all add: div_mult2_eq[symmetric])
  with d assms show ?thesis by (simp add: to_bytes4_def mod_add_eq[symmetric] flip: mod_add_eq)
qed

lemma filter_targets_block:
  assumes "base mod 256 = 0"
  shows "map (\<lambda>ip. (int (ip mod 256), str_ip ip))
           (filter (\<lambda>ip. ip mod 256 \<noteq> 0 \<and> \<not> octet_eq_skip (int (ip mod 256)) skip)
              [base ..< base + 256])
       = map (\<lambda>k. (int k, str_ip (base + k)))
           (filter (\<lambda>k. \<not> octet_eq_skip (int k) skip) [1 ..< 256])"
    (is "map ?f (filter ?P _) = map ?g ?ks")
proof -
  have m: "(k + base) mod 256 = k" if "k < 256" for k
    using assms that by (simp flip: mod_add_eq)
  have 1: "[base ..< base + 256] = map (\<lambda>k. k + base) [0 ..< 256]"
    by (simp only: map_add_upt add.commute[of base 256])
  have 2: "filter ?P (map (\<lambda>k. k + base) [0 ..< 256])
             = map (\<lambda>k. k + base) (filter (?P \<circ> (\<lambda>k. k + base)) [0 ..< 256])"
    by (rule filter_map)
  have a: "filter (?P \<circ> (\<lambda>k. k + base)) [0 ..< 256]
          = filter (\<lambda>k. k \<noteq> 0 \<and> \<not> octet_eq_skip (int k) skip) [0 ..< 256]"
    by (rule filter_cong) (auto simp: m)
  have b: "[0 ..< 256] = 0 # [1 ..< 256]"
    by (subst upt_conv_Cons) simp_all
  have c: "filter (\<lambda>k. k \<noteq> 0 \<and> \<not> octet_eq_skip (int k) skip) (0 # [1 ..< 256])
          = filter (\<lambda>k. k \<noteq> 0 \<and> \<not> octet_eq_skip (int k) skip) [1 ..< 256]"
    by simp
  have d: "filter (\<lambda>k. k \<noteq> 0 \<and> \<not> octet_eq_skip (int k) skip) [1 ..< 256] = ?ks"
    by (rule filter_cong) auto
  have 3: "filter (?P \<circ> (\<lambda>k. k + base)) [0 ..< 256] = ?ks"
    using a b c d by metis
  have 4: "map ?f (map (\<lambda>k. k + base) ?ks) = map ?g ?ks"
    by (auto simp: m add.commute)
  show ?thesis
    unfolding 1 2 3 4 ..
qed

lemma enumerate_targets_24:
  assumes "IPv4Network cidr = Inr net" and "prefixlen net = 24"
  shows "enumerate_targets cidr skip =
           Inr (map (\<lambda>k. (int k, str_ip (network_address net + k)))
                  (filter (\<lambda>k. \<not> octet_eq_skip (int k) skip) [1 ..< 256]))"
proof -
  note n = IPv4Network_24[OF assms]
  have "enumerate_targets cidr skip =
          collect_targets skip [network_address net ..< network_address net + 256] []"
    using assms(1) n(2) by (simp add: enumerate_targets_def)
  also have "\<dots> = Inr ([] @ map (\<lambda>ip. (int (ip mod 256), str_ip ip))
           (filter (\<lambda>ip. ip mod 256 \<noteq> 0 \<and> \<not> octet_eq_skip (int (ip mod 256)) skip)
              [network_address net ..< network_address net + 256]))"
    by (rule collect_targets_eq)
  finally show ?thesis
    by (simp only: filter_targets_block[OF n(1)] append_Nil)
qed

subsection \<open>The target list of a /24 range\<close>

lemma filter_neq_upt:
  assumes "a \<le> n" and "n < b"
  shows "filter (\<lambda>k. k \<noteq> n) [a ..< b] = [a ..< n] @ [Suc n ..< b]"
proof -
  have "[a ..< b] = [a ..< n] @ n # [Suc n ..< b]"
  proof -
    from assms have "[a ..< n + (b - n)] = [a ..< n] @ [n ..< n + (b - n)]"
      by (intro upt_add_eq_append)
    moreover from assms have "n + (b - n) = b" by simp
    moreover have "[n ..< b] = n # [Suc n ..< b]" using assms(2) by (rule upt_conv_Cons)
    ultimately show ?thesis by simp
  qed
  moreover have "filter (\<lambda>k. k \<noteq> n) [a ..< n] = [a ..< n]"
    by (rule filter_True) auto
  moreover have "filter (\<lambda>k. k \<noteq> n) [Suc n ..< b] = [Suc n ..< b]"
    by (rule filter_True) auto
  ultimately show ?thesis by simp
qed

lemmas network_eval =
  IPv4Network_def IPv4Address_def ip_int_from_string_def parse_octet_def is_ascii_digit_def
  digits_value_def from_bytes_big_def make_netmask_def prefix_from_prefix_string_def
  ip_int_from_prefix_def ALL_ONES_def drop_bit_eq_div Let_def

lemmas str_ip_eval = str_ip_def to_bytes4_def str_nat.simps digit_char_def

lemma default_cidr1_network:
  "IPv4Network ''192.168.1.0/24'' =
     Inr \<lparr>network_address = 3232235776, netmask = 4294967040, prefixlen = 24\<rparr>"
  by (simp add: network_eval)

lemma default_cidr2_network:
  "IPv4Network ''192.168.2.0/24'' =
     Inr \<lparr>network_address = 3232236032, netmask = 4294967040, prefixlen = 24\<rparr>"
  by (simp add: network_eval)

text \<open>
  Claim C2, as the code has it. For a range specification that \<^verbatim>\<open>IPv4Network\<close> accepts
  with prefix length 24, the target list is built without error and holds, in ascending
  order of offset, one target per offset from 1 to 255 except the skipped one, each
  paired with the dotted-quad string of the network address plus the offset. Offset 0
  never appears; offset 255 (the broadcast address) does, unless it is the skipped one.
  So there are 255 targets when \<^verbatim>\<open>skip\<close> is a string or an integer outside 1..255,
  and 254 when it is an integer in 1..255.
\<close>

theorem enumerate_targets_valid_24:
  assumes "IPv4Network cidr = Inr net" and "prefixlen net = 24"
  shows "\<exists>ips. enumerate_targets cidr skip = Inr ips
      \<and> ips = map (\<lambda>k. (int k, str_ip (network_address net + k)))
                 (filter (\<lambda>k. \<not> octet_eq_skip (int k) skip) [1 ..< 256])
      \<and> sorted_wrt (<) (map fst ips)
      \<and> 0 \<notin> fst ` set ips
      \<and> ((\<forall>K. skip = SkipInt K \<longrightarrow> K < 1 \<or> 255 < K) \<longrightarrow>
           length ips = 255 \<and> map fst ips = map int [1 ..< 256])
      \<and> (\<forall>K. skip = SkipInt K \<and> 1 \<le> K \<and> K \<le> 255 \<longrightarrow>
           length ips = 254 \<and> map fst ips = map int ([1 ..< nat K] @ [Suc (nat K) ..< 256]))"
proof -
  let ?ks = "filter (\<lambda>k. \<not> octet_eq_skip (int k) skip) [1 ..< 256]"
  let ?ips = "map (\<lambda>k. (int k, str_ip (network_address net + k))) ?ks"
  have e: "enumerate_targets cidr skip = Inr ?ips"
    by (rule enumerate_targets_24[OF assms])
  have fst_ips: "map fst ?ips = map int ?ks"
    by (simp add: comp_def)
  have "sorted_wrt (<) ?ks"
    by (rule sorted_wrt_filter) simp
  then have s: "sorted_wrt (<) (map fst ?ips)"
    unfolding fst_ips by (simp add: sorted_wrt_map)
  have z: "0 \<notin> fst ` set ?ips"
    by (auto simp: image_iff)
  have none: "length ?ips = 255 \<and> map fst ?ips = map int [1 ..< 256]"
    if "\<forall>K. skip = SkipInt K \<longrightarrow> K < 1 \<or> 255 < K"
  proof -
    have "?ks = [1 ..< 256]"
    proof (rule filter_True, rule ballI)
      fix k assume "k \<in> set [1 ..< 256]"
      with that show "\<not> octet_eq_skip (int k) skip"
        by (cases skip) auto
    qed
    then show ?thesis unfolding fst_ips by simp
  qed
  have one: "length ?ips = 254 \<and> map fst ?ips = map int ([1 ..< nat K] @ [Suc (nat K) ..< 256])"
    if "skip = SkipInt K \<and> 1 \<le> K \<and> K \<le> 255" for K
  proof -
    from that have "?ks = filter (\<lambda>k. k \<noteq> nat K) [1 ..< 256]"
      by (intro filter_cong) auto
    also have "\<dots> = [1 ..< nat K] @ [Suc (nat K) ..< 256]"
      using that by (intro filter_neq_upt) auto
    finally have ks: "?ks = [1 ..< nat K] @ [Suc (nat K) ..< 256]" .
    from that have "1 \<le> nat K" and "nat K \<le> 255" by auto
    then have "length ([1 ..< nat K] @ [Suc (nat K) ..< 256]) = 254"
      by simp
    with ks show ?thesis unfolding fst_ips by simp
  qed
  from e s z none one show ?thesis by blast
qed


theorem enumerate_targets_valid_24_witness:
  "map_sum id length (enumerate_targets ''192.168.1.0/24'' (SkipInt 42)) = Inr 254
   \<and> map_sum id length (enumerate_targets ''192.168.1.0/24'' (SkipStr [])) = Inr 255"
  using enumerate_targets_valid_24[OF default_cidr1_network, of "SkipInt 42"]
        enumerate_targets_valid_24[OF default_cidr1_network, of "SkipStr []"]
  by auto

text \<open>
  For the default range \<^verbatim>\<open>192.168.1.0/24\<close> with the default \<^verbatim>\<open>skip = ""\<close> the target
  list has 255 entries, not 254, and its last entry is offset 255.
\<close>

theorem enumerate_targets_default_counterexample:
  "map_sum id length (enumerate_targets ''192.168.1.0/24'' (SkipStr [])) = Inr 255
   \<and> map_sum id last (enumerate_targets ''192.168.1.0/24'' (SkipStr [])) = Inr (255, ''192.168.1.255'')"
proof -
  have "enumerate_targets ''192.168.1.0/24'' (SkipStr []) =
          Inr (map (\<lambda>k. (int k, str_ip (3232235776 + k))) [1 ..< 256])"
    using enumerate_targets_24[OF default_cidr1_network, of "SkipStr []"] by simp
  moreover have "str_ip (3232235776 + 255) = ''192.168.1.255''"
    by (simp add: str_ip_eval)
  ultimately show ?thesis
    by (simp add: last_map)
qed

subsection \<open>Probing one target\<close>

lemma ping_thread_eq:
  "ping_thread rc ip (tr, fl) =
     (if rc ip 1 = 0 then
        (tr @ [Ping (snd ip), Print (IsUpMsg (snd ip))], fl)
      else if rc ip 2 = 0 then
        (tr @ [Ping (snd ip), Print (FailedAttemptMsg (snd ip) 1),
               Ping (snd ip), Print (IsUpMsg (snd ip))], fl)
      else if rc ip 3 = 0 then
        (tr @ [Ping (snd ip), Print (FailedAttemptMsg (snd ip) 1),
               Ping (snd ip), Print (FailedAttemptMsg (snd ip) 2),
               Ping (snd ip), Print (IsUpMsg (snd ip))], fl)
      else
        (tr @ [Ping (snd ip), Print (FailedAttemptMsg (snd ip) 1),
               Ping (snd ip), Print (FailedAttemptMsg (snd ip) 2),
               Ping (snd ip), Print (IsDownMsg (snd ip))], fl @ [ip]))"
proof -
  have step3: "ping_attempts rc ip 3 (t, fl) =
      (if rc ip 3 = 0 then (t @ [Ping (snd ip), Print (IsUpMsg (snd ip))], fl)
       else (t @ [Ping (snd ip), Print (IsDownMsg (snd ip))], fl @ [ip]))" for t
    by (subst ping_attempts.simps) simp
  have step2: "ping_attempts rc ip 2 (t, fl) =
      (if rc ip 2 = 0 then (t @ [Ping (snd ip), Print (IsUpMsg (snd ip))], fl)
       else ping_attempts rc ip 3 (t @ [Ping (snd ip), Print (FailedAttemptMsg (snd ip) 2)], fl))" for t
    by (subst ping_attempts.simps) simp
  have step1: "ping_attempts rc ip 1 (t, fl) =
      (if rc ip 1 = 0 then (t @ [Ping (snd ip), Print (IsUpMsg (snd ip))], fl)
       else ping_attempts rc ip 2 (t @ [Ping (snd ip), Print (FailedAttemptMsg (snd ip) 1)], fl))" for t
    by (subst ping_attempts.simps) (simp add: numeral_2_eq_2)
  show ?thesis
    unfolding ping_thread_def step1 step2 step3 by simp
qed

lemma pings_append [simp]: "pings (xs @ ys) = pings xs @ pings ys"
  by (simp add: pings_def)

lemma pings_Cons_Ping [simp]: "pings (Ping a # xs) = a # pings xs"
  by (simp add: pings_def)

lemma pings_Cons_Print [simp]: "pings (Print m # xs) = pings xs"
  by (simp add: pings_def)

lemma pings_Nil [simp]: "pings [] = []"
  by (simp add: pings_def)

text \<open>
  Claim C3. For one target, \<^verbatim>\<open>ping_thread\<close> starts between one and three \<^verbatim>\<open>ping\<close>
  subprocesses, all for that target. Every attempt before the last one returned a
  nonzero code. If the last attempt returned 0, the worker stopped there, reported the
  target up and left \<^verbatim>\<open>faillist\<close> as it was. Otherwise the last attempt was the third,
  the target was reported down and appended to \<^verbatim>\<open>faillist\<close> once. So the target is
  appended exactly when attempts 1, 2 and 3 all return a nonzero code, and the list is
  unchanged exactly when one of them returns 0.
\<close>

theorem ping_thread_retry_policy:
  fixes rc :: returncodes and ip :: target and tr :: trace and faillist :: "target list"
  defines "tr' \<equiv> fst (ping_thread rc ip (tr, faillist))"
      and "faillist' \<equiv> snd (ping_thread rc ip (tr, faillist))"
  shows "\<exists>n. 1 \<le> n \<and> n \<le> 3
           \<and> pings tr' = pings tr @ replicate n (snd ip)
           \<and> (\<forall>k. 1 \<le> k \<and> k < n \<longrightarrow> rc ip k \<noteq> 0)
           \<and> (rc ip n = 0 \<longrightarrow> last tr' = Print (IsUpMsg (snd ip)) \<and> faillist' = faillist)
           \<and> (rc ip n \<noteq> 0 \<longrightarrow> n = 3 \<and> last tr' = Print (IsDownMsg (snd ip))
                                   \<and> faillist' = faillist @ [ip])
           \<and> (faillist' = faillist @ [ip] \<longleftrightarrow> rc ip 1 \<noteq> 0 \<and> rc ip 2 \<noteq> 0 \<and> rc ip 3 \<noteq> 0)
           \<and> (faillist' = faillist \<longleftrightarrow> rc ip 1 = 0 \<or> rc ip 2 = 0 \<or> rc ip 3 = 0)"
proof -
  have k2: "rc ip k \<noteq> 0" if "rc ip 1 \<noteq> 0" "1 \<le> k \<and> k < 2" for k :: nat
  proof -
    from that(2) have "k = 1" by simp
    with that(1) show ?thesis by simp
  qed
  have k3: "rc ip k \<noteq> 0" if "rc ip 1 \<noteq> 0" "rc ip 2 \<noteq> 0" "1 \<le> k \<and> k < 3" for k :: nat
  proof -
    from that(3) have "k = 1 \<or> k = 2" by auto
    with that(1,2) show ?thesis by auto
  qed
  consider (a) "rc ip 1 = 0"
    | (b) "rc ip 1 \<noteq> 0" "rc ip 2 = 0"
    | (c) "rc ip 1 \<noteq> 0" "rc ip 2 \<noteq> 0" "rc ip 3 = 0"
    | (d) "rc ip 1 \<noteq> 0" "rc ip 2 \<noteq> 0" "rc ip 3 \<noteq> 0"
    by blast
  then show ?thesis
  proof cases
    case a
    then have "pings tr' = pings tr @ replicate 1 (snd ip)"
      and "last tr' = Print (IsUpMsg (snd ip))" and "faillist' = faillist"
      unfolding tr'_def faillist'_def ping_thread_eq by simp_all
    moreover have "\<forall>k::nat. 1 \<le> k \<and> k < 1 \<longrightarrow> rc ip k \<noteq> 0" by simp
    ultimately show ?thesis using a by (intro exI[of _ 1]) simp
  next
    case b
    then have "pings tr' = pings tr @ replicate 2 (snd ip)"
      and "last tr' = Print (IsUpMsg (snd ip))" and "faillist' = faillist"
      unfolding tr'_def faillist'_def ping_thread_eq by (simp_all add: numeral_2_eq_2)
    moreover have "\<forall>k::nat. 1 \<le> k \<and> k < 2 \<longrightarrow> rc ip k \<noteq> 0"
      using k2[OF b(1)] by blast
    ultimately show ?thesis using b by (intro exI[of _ 2]) simp
  next
    case c
    then have "pings tr' = pings tr @ replicate 3 (snd ip)"
      and "last tr' = Print (IsUpMsg (snd ip))" and "faillist' = faillist"
      unfolding tr'_def faillist'_def ping_thread_eq by (simp_all add: numeral_3_eq_3)
    moreover have "\<forall>k::nat. 1 \<le> k \<and> k < 3 \<longrightarrow> rc ip k \<noteq> 0"
      using k3[OF c(1,2)] by blast
    ultimately show ?thesis using c by (intro exI[of _ 3]) simp
  next
    case d
    then have "pings tr' = pings tr @ replicate 3 (snd ip)"
      and "last tr' = Print (IsDownMsg (snd ip))" and "faillist' = faillist @ [ip]"
      unfolding tr'_def faillist'_def ping_thread_eq by (simp_all add: numeral_3_eq_3)
    moreover have "\<forall>k::nat. 1 \<le> k \<and> k < 3 \<longrightarrow> rc ip k \<noteq> 0"
      using k3[OF d(1,2)] by blast
    ultimately show ?thesis using d by (intro exI[of _ 3]) simp
  qed
qed

theorem ping_thread_retry_policy_witness:
  "snd (ping_thread (mock_returncode 1) (7, ''10.0.0.7'') ([], [])) = [(7, ''10.0.0.7'')]
   \<and> snd (ping_thread (mock_returncode 0) (7, ''10.0.0.7'') ([], [])) = []"
  using ping_thread_retry_policy[of "mock_returncode 1" "(7, ''10.0.0.7'')" "[]" "[]"]
        ping_thread_retry_policy[of "mock_returncode 0" "(7, ''10.0.0.7'')" "[]" "[]"]
  by (auto simp: mock_returncode_def)

subsection \<open>A pool of workers\<close>

lemma mset_remove_nth:
  "i < length xs \<Longrightarrow> add_mset (xs ! i) (mset (remove_nth i xs)) = mset xs"
proof -
  assume "i < length xs"
  then have "xs = take i xs @ xs ! i # drop (Suc i) xs"
    by (rule id_take_nth_drop)
  then have "mset xs = mset (take i xs @ xs ! i # drop (Suc i) xs)" by simp
  then show ?thesis by simp
qed

lemma length_remove_nth: "i < length xs \<Longrightarrow> length (remove_nth i xs) < length xs"
  by auto

lemma mset_completion_order: "mset (completion_order choices xs) = mset xs"
proof (induction choices xs rule: completion_order.induct)
  case (1 choices)
  show ?case by simp
next
  case (2 x xs)
  show ?case by simp
next
  case (3 c choices x xs)
  let ?i = "c mod length (x # xs)"
  have i: "?i < length (x # xs)" by simp
  have "mset (completion_order (c # choices) (x # xs))
          = add_mset ((x # xs) ! ?i) (mset (completion_order choices (remove_nth ?i (x # xs))))"
    by (simp add: Let_def)
  also have "\<dots> = add_mset ((x # xs) ! ?i) (mset (remove_nth ?i (x # xs)))"
    using "3.IH"[of ?i] by simp
  also have "\<dots> = mset (x # xs)"
    using i by (rule mset_remove_nth)
  finally show ?case .
qed

lemma set_completion_order: "set (completion_order choices xs) = set xs"
  using mset_completion_order[of choices xs] by (metis set_mset_mset)

lemma length_completion_order: "length (completion_order choices xs) = length xs"
  using mset_completion_order[of choices xs] by (metis size_mset)

text \<open>
  The scheduler's choices cover every order in which the targets of a queue can finish:
  a completion order is a permutation of the queue, and every permutation is one.
\<close>

lemma completion_order_any_permutation:
  "mset ys = mset xs \<Longrightarrow> \<exists>choices. completion_order choices xs = ys"
proof (induction ys arbitrary: xs)
  case Nil
  then have "xs = []" by simp
  then show ?case by simp
next
  case (Cons y ys)
  then have "y \<in> set xs" by (metis list.set_intros(1) set_mset_mset)
  then obtain i where i: "i < length xs" "xs ! i = y"
    by (auto simp: in_set_conv_nth)
  then obtain x xs' where xs: "xs = x # xs'" by (cases xs) auto
  have "add_mset y (mset (remove_nth i xs)) = mset xs"
    using mset_remove_nth[OF i(1)] i(2) by simp
  moreover from Cons.prems have "add_mset y (mset ys) = mset xs" by simp
  ultimately have "add_mset y (mset ys) = add_mset y (mset (remove_nth i xs))"
    by (simp only:)
  then have "mset ys = mset (remove_nth i xs)"
    by (simp only: add_mset_add_mset_same_iff)
  from Cons.IH[OF this] obtain choices where c: "completion_order choices (remove_nth i xs) = ys"
    by blast
  have "completion_order (i # choices) xs = y # ys"
    using i c unfolding xs by (simp add: Let_def)
  then show ?case by blast
qed

lemma snd_ping_thread:
  "snd (ping_thread rc ip st) =
     (if rc ip 1 \<noteq> 0 \<and> rc ip 2 \<noteq> 0 \<and> rc ip 3 \<noteq> 0 then snd st @ [ip] else snd st)"
  by (cases st) (simp add: ping_thread_eq)

lemma snd_foldl_ping_thread:
  "snd (foldl (\<lambda>st ip. ping_thread rc ip st) st ips) =
     snd st @ filter (\<lambda>ip. rc ip 1 \<noteq> 0 \<and> rc ip 2 \<noteq> 0 \<and> rc ip 3 \<noteq> 0) ips"
  by (induction ips arbitrary: st) (simp_all add: snd_ping_thread)

lemma snd_run_pool:
  "snd (run_pool rc choices ips tr) =
     filter (\<lambda>ip. rc ip 1 \<noteq> 0 \<and> rc ip 2 \<noteq> 0 \<and> rc ip 3 \<noteq> 0) (completion_order choices ips)"
  by (simp add: run_pool_def snd_foldl_ping_thread)

subsection \<open>The whole sweep\<close>

lemma enumerate_targets_Inl: "IPv4Network cidr = Inl e \<Longrightarrow> enumerate_targets cidr skip = Inl e"
  by (simp add: enumerate_targets_def)

lemma enumerate_targets_Inr:
  "IPv4Network cidr = Inr net \<Longrightarrow>
   enumerate_targets cidr skip =
     Inr (map (\<lambda>ip. (int (ip mod 256), str_ip ip))
            (filter (\<lambda>ip. ip mod 256 \<noteq> 0 \<and> \<not> octet_eq_skip (int (ip mod 256)) skip)
               (network_iter net)))"
  by (simp add: enumerate_targets_def collect_targets_eq)

lemma initiate_ping_queues_Inl1:
  "enumerate_targets cidr1 skip = Inl e \<Longrightarrow>
   initiate_ping_queues env cidr1 cidr2 skip tr = (tr, Inl e)"
  by (simp add: initiate_ping_queues_def)

lemma initiate_ping_queues_Inl2:
  "enumerate_targets cidr1 skip = Inr ips1 \<Longrightarrow> enumerate_targets cidr2 skip = Inl e \<Longrightarrow>
   initiate_ping_queues env cidr1 cidr2 skip tr = (tr, Inl e)"
  by (simp add: initiate_ping_queues_def)

lemma initiate_ping_queues_Inr:
  fixes env :: environment
  assumes "enumerate_targets cidr1 skip = Inr ips1" and "enumerate_targets cidr2 skip = Inr ips2"
  defines "F1 \<equiv> filter (\<lambda>ip. returncodes1 env ip 1 \<noteq> 0 \<and> returncodes1 env ip 2 \<noteq> 0 \<and> returncodes1 env ip 3 \<noteq> 0)
                   (completion_order (choices1 env) ips1)"
      and "F2 \<equiv> filter (\<lambda>ip. returncodes2 env ip 1 \<noteq> 0 \<and> returncodes2 env ip 2 \<noteq> 0 \<and> returncodes2 env ip 3 \<noteq> 0)
                   (completion_order (choices2 env) ips2)"
  shows "\<exists>tr'. initiate_ping_queues env cidr1 cidr2 skip tr =
           (tr', Inr (F1, F2,
              sort (filter (\<lambda>x. x \<notin> fst ` set F2) (map fst F1)),
              sort (filter (\<lambda>y. y \<notin> fst ` set F1) (map fst F2)),
              sort (filter (\<lambda>x. x \<in> fst ` set F2) (map fst F1))))"
proof -
  obtain tr1 f1 where p1: "run_pool (returncodes1 env) (choices1 env) ips1 tr = (tr1, f1)"
    by (cases "run_pool (returncodes1 env) (choices1 env) ips1 tr")
  obtain tr2 f2 where p2: "run_pool (returncodes2 env) (choices2 env) ips2 tr1 = (tr2, f2)"
    by (cases "run_pool (returncodes2 env) (choices2 env) ips2 tr1")
  obtain tr3 res where p3: "print_results cidr1 f1 cidr2 f2 tr2 = (tr3, res)"
    by (cases "print_results cidr1 f1 cidr2 f2 tr2")
  have f1: "f1 = F1" using snd_run_pool[of "returncodes1 env" "choices1 env" ips1 tr] p1
    by (simp add: F1_def)
  have f2: "f2 = F2" using snd_run_pool[of "returncodes2 env" "choices2 env" ips2 tr1] p2
    by (simp add: F2_def)
  have res: "res = (F1, F2,
              sort (filter (\<lambda>x. x \<notin> fst ` set F2) (map fst F1)),
              sort (filter (\<lambda>y. y \<notin> fst ` set F1) (map fst F2)),
              sort (filter (\<lambda>x. x \<in> fst ` set F2) (map fst F1)))"
    using print_results_result[of cidr1 f1 cidr2 f2 tr2] p3 by (simp add: f1 f2)
  have "initiate_ping_queues env cidr1 cidr2 skip tr = (tr3, Inr res)"
    by (simp add: initiate_ping_queues_def assms(1,2) p1 p2 p3)
  with res show ?thesis by blast
qed

lemma str_in_skip: "\<not> str_in ''--skip'' ''--cidr1''" "\<not> str_in ''--skip'' ''--cidr2''" "str_in ''--skip'' ''--skip''"
  by (simp_all add: str_in_def upt_rec)

lemma main_no_opts:
  "main env (Opts []) =
     initiate_ping_queues env ''192.168.1.0/24'' ''192.168.2.0/24'' (SkipStr [])
       [Print BlankMsg, Print (Cidr1Msg ''192.168.1.0/24''), Print (Cidr2Msg ''192.168.2.0/24'')]"
  by (simp add: main_def default_config_def)

lemma main_skip_opt:
  assumes "py_int arg = Inr K" and "0 \<le> K" and "K \<le> 255"
  shows "main env (Opts [(''--skip'', arg)]) =
     initiate_ping_queues env ''192.168.1.0/24'' ''192.168.2.0/24'' (SkipInt K)
       [Print BlankMsg, Print (Cidr1Msg ''192.168.1.0/24''), Print (Cidr2Msg ''192.168.2.0/24'')]"
  using assms by (simp add: main_def default_config_def str_in_skip)

subsection \<open>The default run with every probe forced down or up\<close>

lemma default_targets1:
  "enumerate_targets ''192.168.1.0/24'' (SkipStr []) =
     Inr (map (\<lambda>k. (int k, str_ip (3232235776 + k))) [1 ..< 256])"
  using enumerate_targets_24[OF default_cidr1_network, of "SkipStr []"] by simp

lemma default_targets2:
  "enumerate_targets ''192.168.2.0/24'' (SkipStr []) =
     Inr (map (\<lambda>k. (int k, str_ip (3232236032 + k))) [1 ..< 256])"
  using enumerate_targets_24[OF default_cidr2_network, of "SkipStr []"] by simp

lemma sort_eq_of_mset:
  fixes xs ys :: "int list"
  assumes "mset xs = mset ys" and "sorted ys"
  shows "sort xs = ys"
  using assms by (simp add: properties_for_sort)

lemma sorted_offsets: "sorted (map int [1 ..< 256])"
  by (simp add: sorted_map)

lemma mset_map_completion_order:
  "mset (map f (completion_order choices xs)) = mset (map f xs)"
  by (simp add: mset_completion_order)

lemma main_default_result:
  fixes env :: environment
  defines "F1 \<equiv> filter (\<lambda>ip. returncodes1 env ip 1 \<noteq> 0 \<and> returncodes1 env ip 2 \<noteq> 0 \<and> returncodes1 env ip 3 \<noteq> 0)
                   (completion_order (choices1 env) (map (\<lambda>k. (int k, str_ip (3232235776 + k))) [1 ..< 256]))"
      and "F2 \<equiv> filter (\<lambda>ip. returncodes2 env ip 1 \<noteq> 0 \<and> returncodes2 env ip 2 \<noteq> 0 \<and> returncodes2 env ip 3 \<noteq> 0)
                   (completion_order (choices2 env) (map (\<lambda>k. (int k, str_ip (3232236032 + k))) [1 ..< 256]))"
  shows "\<exists>tr'. main env (Opts []) =
           (tr', Inr (F1, F2,
              sort (filter (\<lambda>x. x \<notin> fst ` set F2) (map fst F1)),
              sort (filter (\<lambda>y. y \<notin> fst ` set F1) (map fst F2)),
              sort (filter (\<lambda>x. x \<in> fst ` set F2) (map fst F1))))"
  unfolding main_no_opts F1_def F2_def
  by (rule initiate_ping_queues_Inr[OF default_targets1 default_targets2])

lemma all_down_classification:
  fixes F1 F2 :: "target list"
  assumes "mset (map fst F1) = mset (map int [1 ..< 256])"
      and "mset (map fst F2) = mset (map int [1 ..< 256])"
  shows "sort (filter (\<lambda>x. x \<notin> fst ` set F2) (map fst F1)) = []"
    and "sort (filter (\<lambda>y. y \<notin> fst ` set F1) (map fst F2)) = []"
    and "sort (filter (\<lambda>x. x \<in> fst ` set F2) (map fst F1)) = map int [1 ..< 256]"
proof -
  have "set (map fst F1) = set (map int [1 ..< 256])"
    using assms(1) by (rule mset_eq_setD)
  moreover have "set (map fst F2) = set (map int [1 ..< 256])"
    using assms(2) by (rule mset_eq_setD)
  ultimately have s: "fst ` set F1 = fst ` set F2"
    by simp
  have a: "filter (\<lambda>x. x \<notin> fst ` set F2) (map fst F1) = []"
    by (rule filter_False) (simp add: s)
  have b: "filter (\<lambda>y. y \<notin> fst ` set F1) (map fst F2) = []"
    by (rule filter_False) (simp add: s)
  have c: "filter (\<lambda>x. x \<in> fst ` set F2) (map fst F1) = map fst F1"
    by (rule filter_True) (simp add: s[symmetric])
  show "sort (filter (\<lambda>x. x \<notin> fst ` set F2) (map fst F1)) = []"
    unfolding a by simp
  show "sort (filter (\<lambda>y. y \<notin> fst ` set F1) (map fst F2)) = []"
    unfolding b by simp
  show "sort (filter (\<lambda>x. x \<in> fst ` set F2) (map fst F1)) = map int [1 ..< 256]"
    unfolding c using assms(1) sorted_offsets by (rule sort_eq_of_mset)
qed

lemma main_default_all_down:
  fixes env :: environment
  assumes "\<forall>ip a. returncodes1 env ip a \<noteq> 0" and "\<forall>ip a. returncodes2 env ip a \<noteq> 0"
  shows "\<exists>tr r. main env (Opts []) = (tr, Inr r)
           \<and> length (failuresA r) = 255 \<and> length (failuresB r) = 255
           \<and> onlyA r = [] \<and> onlyB r = []
           \<and> common_octets r = map int [1 ..< 256] \<and> length (common_octets r) = 255"
proof -
  define ips1 where "ips1 = map (\<lambda>k. (int k, str_ip (3232235776 + k))) [1 ..< 256]"
  define ips2 where "ips2 = map (\<lambda>k. (int k, str_ip (3232236032 + k))) [1 ..< 256]"
  define F1 where "F1 = completion_order (choices1 env) ips1"
  define F2 where "F2 = completion_order (choices2 env) ips2"
  have f1: "filter (\<lambda>ip. returncodes1 env ip 1 \<noteq> 0 \<and> returncodes1 env ip 2 \<noteq> 0 \<and> returncodes1 env ip 3 \<noteq> 0)
              (completion_order (choices1 env) ips1) = F1"
    unfolding F1_def by (rule filter_True) (simp add: assms(1))
  have f2: "filter (\<lambda>ip. returncodes2 env ip 1 \<noteq> 0 \<and> returncodes2 env ip 2 \<noteq> 0 \<and> returncodes2 env ip 3 \<noteq> 0)
              (completion_order (choices2 env) ips2) = F2"
    unfolding F2_def by (rule filter_True) (simp add: assms(2))
  have fst1: "map fst ips1 = map int [1 ..< 256]"
    unfolding ips1_def by (simp only: map_map comp_def fst_conv)
  have fst2: "map fst ips2 = map int [1 ..< 256]"
    unfolding ips2_def by (simp only: map_map comp_def fst_conv)
  have m1: "mset (map fst F1) = mset (map int [1 ..< 256])"
    unfolding F1_def by (simp only: mset_map_completion_order fst1)
  have m2: "mset (map fst F2) = mset (map int [1 ..< 256])"
    unfolding F2_def by (simp only: mset_map_completion_order fst2)
  have l1: "length F1 = 255"
    unfolding F1_def ips1_def by (simp only: length_completion_order length_map length_upt)
  have l2: "length F2 = 255"
    unfolding F2_def ips2_def by (simp only: length_completion_order length_map length_upt)
  have l3: "length (map int [1 ..< 256]) = 255"
    by (simp only: length_map length_upt)
  from main_default_result[of env]
  obtain tr' where "main env (Opts []) =
           (tr', Inr (F1, F2,
              sort (filter (\<lambda>x. x \<notin> fst ` set F2) (map fst F1)),
              sort (filter (\<lambda>y. y \<notin> fst ` set F1) (map fst F2)),
              sort (filter (\<lambda>x. x \<in> fst ` set F2) (map fst F1))))"
    unfolding ips1_def[symmetric] ips2_def[symmetric] f1 f2 by blast
  then have m: "main env (Opts []) = (tr', Inr (F1, F2, [], [], map int [1 ..< 256]))"
    by (simp only: all_down_classification[OF m1 m2])
  show ?thesis
    unfolding m
    by (intro exI[of _ tr'] exI[of _ "(F1, F2, [], [], map int [1 ..< 256])"])
       (simp only: failuresA_def failuresB_def onlyA_def onlyB_def common_octets_def
          prod.case l1 l2 l3 simp_thms)
qed

lemma main_default_all_up:
  fixes env :: environment
  assumes "\<forall>ip a. returncodes1 env ip a = 0" and "\<forall>ip a. returncodes2 env ip a = 0"
  shows "\<exists>tr r. main env (Opts []) = (tr, Inr r)
           \<and> failuresA r = [] \<and> failuresB r = []
           \<and> onlyA r = [] \<and> onlyB r = [] \<and> common_octets r = []"
proof -
  have f1: "filter (\<lambda>ip. returncodes1 env ip 1 \<noteq> 0 \<and> returncodes1 env ip 2 \<noteq> 0 \<and> returncodes1 env ip 3 \<noteq> 0) xs = []" for xs
    by (rule filter_False) (simp add: assms(1))
  have f2: "filter (\<lambda>ip. returncodes2 env ip 1 \<noteq> 0 \<and> returncodes2 env ip 2 \<noteq> 0 \<and> returncodes2 env ip 3 \<noteq> 0) xs = []" for xs
    by (rule filter_False) (simp add: assms(2))
  from main_default_result[of env]
  obtain tr' where m: "main env (Opts []) = (tr', Inr ([], [], [], [], []))"
    unfolding f1 f2 by auto
  show ?thesis
    unfolding m
    by (intro exI[of _ tr'] exI[of _ "([], [], [], [], [])"])
       (simp add: failuresA_def failuresB_def onlyA_def onlyB_def common_octets_def)
qed


text \<open>
  Claim C4, as the code has it. With no options (the default ranges
  \<^verbatim>\<open>192.168.1.0/24\<close> and \<^verbatim>\<open>192.168.2.0/24\<close>, nothing skipped), whatever the scheduler
  does: if every attempt returns a nonzero code, \<^verbatim>\<open>main\<close> returns a result in which
  each failure list has 255 entries, \<open>onlyA\<close> and \<open>onlyB\<close> are empty and \<open>common\<close> is the
  255 offsets 1..255; if every attempt returns 0, both failure lists and the three
  derived sequences are empty.
\<close>

theorem sweep_default_all_down_all_up:
  fixes env :: environment
  shows "((\<forall>ip a. returncodes1 env ip a \<noteq> 0) \<and> (\<forall>ip a. returncodes2 env ip a \<noteq> 0) \<longrightarrow>
            (\<exists>tr r. main env (Opts []) = (tr, Inr r)
               \<and> length (failuresA r) = 255 \<and> length (failuresB r) = 255
               \<and> onlyA r = [] \<and> onlyB r = []
               \<and> common_octets r = map int [1 ..< 256] \<and> length (common_octets r) = 255))
       \<and> ((\<forall>ip a. returncodes1 env ip a = 0) \<and> (\<forall>ip a. returncodes2 env ip a = 0) \<longrightarrow>
            (\<exists>tr r. main env (Opts []) = (tr, Inr r)
               \<and> failuresA r = [] \<and> failuresB r = []
               \<and> onlyA r = [] \<and> onlyB r = [] \<and> common_octets r = []))"
  using main_default_all_down[of env] main_default_all_up[of env] by blast

theorem sweep_default_all_down_all_up_witness:
  "(\<exists>tr r. main (mock_environment 1 [2, 0, 1] [7]) (Opts []) = (tr, Inr r)
       \<and> length (failuresA r) = 255 \<and> length (failuresB r) = 255
       \<and> onlyA r = [] \<and> onlyB r = []
       \<and> common_octets r = map int [1 ..< 256] \<and> length (common_octets r) = 255)
   \<and> (\<exists>tr r. main (mock_environment 0 [2, 0, 1] [7]) (Opts []) = (tr, Inr r)
       \<and> failuresA r = [] \<and> failuresB r = []
       \<and> onlyA r = [] \<and> onlyB r = [] \<and> common_octets r = [])"
proof -
  have 1: "(\<forall>ip a. returncodes1 (mock_environment 1 [2, 0, 1] [7]) ip a \<noteq> 0)
         \<and> (\<forall>ip a. returncodes2 (mock_environment 1 [2, 0, 1] [7]) ip a \<noteq> 0)"
    by (simp add: mock_environment_def mock_returncode_def)
  have 0: "(\<forall>ip a. returncodes1 (mock_environment 0 [2, 0, 1] [7]) ip a = 0)
         \<and> (\<forall>ip a. returncodes2 (mock_environment 0 [2, 0, 1] [7]) ip a = 0)"
    by (simp add: mock_environment_def mock_returncode_def)
  from sweep_default_all_down_all_up[of "mock_environment 1 [2, 0, 1] [7]"] 1
       sweep_default_all_down_all_up[of "mock_environment 0 [2, 0, 1] [7]"] 0
  show ?thesis by blast
qed

text \<open>
  With the mock that makes every attempt fail, the default run returns 255 entries in
  each failure list and in \<open>common\<close>, not 254.
\<close>

theorem sweep_default_all_down_counterexample:
  "map_sum id result_sizes (snd (main (mock_environment 1 [] []) (Opts []))) =
     Inr (255, 255, 0, 0, 255)"
proof -
  have "(\<forall>ip a. returncodes1 (mock_environment 1 [] []) ip a \<noteq> 0)"
    and "(\<forall>ip a. returncodes2 (mock_environment 1 [] []) ip a \<noteq> 0)"
    by (simp_all add: mock_environment_def mock_returncode_def)
  from main_default_all_down[OF this]
  obtain tr r where "main (mock_environment 1 [] []) (Opts []) = (tr, Inr r)"
    and "length (failuresA r) = 255" and "length (failuresB r) = 255"
    and "onlyA r = []" and "onlyB r = []" and "length (common_octets r) = 255"
    by blast
  then show ?thesis by (simp add: result_sizes_def)
qed

subsection \<open>What a sweep can put into its result\<close>

lemma enumerate_targets_members:
  assumes "IPv4Network cidr = Inr net" and "enumerate_targets cidr skip = Inr ips"
      and "(offset, addr) \<in> set ips"
  shows "\<exists>ip \<in> set (network_iter net).
           addr = str_ip ip \<and> offset = int (ip mod 256) \<and> offset \<noteq> 0
           \<and> \<not> octet_eq_skip offset skip"
  using assms(2,3) unfolding enumerate_targets_Inr[OF assms(1)] by fastforce

lemma enumerate_targets_skip_absent:
  assumes "IPv4Network cidr = Inr net" and "enumerate_targets cidr (SkipInt K) = Inr ips"
  shows "K \<notin> fst ` set ips"
proof
  assume "K \<in> fst ` set ips"
  then obtain addr where "(K, addr) \<in> set ips" by auto
  from enumerate_targets_members[OF assms this] show False by auto
qed

lemma final_octet_of_str_ip:
  "py_int (str_split (CHR ''.'') (str_ip ip) ! 3) = Inr (int (ip mod 256))"
  by (simp add: str_split_str_ip to_bytes4_def py_int_str_nat)

lemma first_octets_of_block:
  assumes "base mod 256 = 0" and "k < 256"
  shows "take 3 (str_split (CHR ''.'') (str_ip (base + k))) =
         take 3 (str_split (CHR ''.'') (str_ip base))"
proof -
  have "take 3 (map str_nat (to_bytes4 (base + k))) = map str_nat (take 3 (to_bytes4 base))"
    unfolding to_bytes4_block[OF assms] by (simp add: to_bytes4_def)
  then show ?thesis
    by (simp only: str_split_str_ip take_map)
qed

lemma result_offsets_subset:
  fixes F1 F2 :: "target list"
  defines "r \<equiv> (F1, F2,
              sort (filter (\<lambda>x. x \<notin> fst ` set F2) (map fst F1)),
              sort (filter (\<lambda>y. y \<notin> fst ` set F1) (map fst F2)),
              sort (filter (\<lambda>x. x \<in> fst ` set F2) (map fst F1)))"
  shows "failuresA r = F1" and "failuresB r = F2"
    and "set (onlyA r) \<subseteq> fst ` set F1" and "set (onlyB r) \<subseteq> fst ` set F2"
    and "set (common_octets r) \<subseteq> fst ` set F1"
  by (auto simp: r_def failuresA_def failuresB_def onlyA_def onlyB_def common_octets_def)

lemma sweep_result_subsets:
  fixes env :: environment
  assumes "IPv4Network cidr1 = Inr net1" and "IPv4Network cidr2 = Inr net2"
  shows "\<exists>tr' r ips1 ips2.
           enumerate_targets cidr1 skip = Inr ips1 \<and> enumerate_targets cidr2 skip = Inr ips2
         \<and> initiate_ping_queues env cidr1 cidr2 skip tr = (tr', Inr r)
         \<and> set (failuresA r) \<subseteq> set ips1 \<and> set (failuresB r) \<subseteq> set ips2
         \<and> set (onlyA r) \<subseteq> fst ` set ips1 \<and> set (onlyB r) \<subseteq> fst ` set ips2
         \<and> set (common_octets r) \<subseteq> fst ` set ips1"
proof -
  obtain ips1 where e1: "enumerate_targets cidr1 skip = Inr ips1"
    using enumerate_targets_Inr[OF assms(1)] by blast
  obtain ips2 where e2: "enumerate_targets cidr2 skip = Inr ips2"
    using enumerate_targets_Inr[OF assms(2)] by blast
  define F1 where "F1 = filter (\<lambda>ip. returncodes1 env ip 1 \<noteq> 0 \<and> returncodes1 env ip 2 \<noteq> 0 \<and> returncodes1 env ip 3 \<noteq> 0)
                   (completion_order (choices1 env) ips1)"
  define F2 where "F2 = filter (\<lambda>ip. returncodes2 env ip 1 \<noteq> 0 \<and> returncodes2 env ip 2 \<noteq> 0 \<and> returncodes2 env ip 3 \<noteq> 0)
                   (completion_order (choices2 env) ips2)"
  define r where "r = (F1, F2,
              sort (filter (\<lambda>x. x \<notin> fst ` set F2) (map fst F1)),
              sort (filter (\<lambda>y. y \<notin> fst ` set F1) (map fst F2)),
              sort (filter (\<lambda>x. x \<in> fst ` set F2) (map fst F1)))"
  from initiate_ping_queues_Inr[OF e1 e2, of env tr]
  obtain tr' where i: "initiate_ping_queues env cidr1 cidr2 skip tr = (tr', Inr r)"
    unfolding F1_def[symmetric] F2_def[symmetric] r_def[symmetric] by blast
  have s1: "set F1 \<subseteq> set ips1"
    unfolding F1_def by (auto simp: set_completion_order)
  have s2: "set F2 \<subseteq> set ips2"
    unfolding F2_def by (auto simp: set_completion_order)
  note rs = result_offsets_subset[of F1 F2, folded r_def]
  have i1: "fst ` set F1 \<subseteq> fst ` set ips1"
    using s1 by (rule image_mono)
  have i2: "fst ` set F2 \<subseteq> fst ` set ips2"
    using s2 by (rule image_mono)
  have "set (failuresA r) \<subseteq> set ips1" and "set (failuresB r) \<subseteq> set ips2"
    using s1 s2 rs(1,2) by simp_all
  moreover have "set (onlyA r) \<subseteq> fst ` set ips1"
    using rs(3) i1 by (rule subset_trans)
  moreover have "set (onlyB r) \<subseteq> fst ` set ips2"
    using rs(4) i2 by (rule subset_trans)
  moreover have "set (common_octets r) \<subseteq> fst ` set ips1"
    using rs(5) i1 by (rule subset_trans)
  ultimately show ?thesis using e1 e2 i by blast
qed


lemma sweep_skip_absent:
  fixes env :: environment
  assumes "IPv4Network cidr1 = Inr net1" and "IPv4Network cidr2 = Inr net2"
  shows "\<exists>tr' r. initiate_ping_queues env cidr1 cidr2 (SkipInt K) tr = (tr', Inr r)
           \<and> K \<notin> fst ` set (failuresA r) \<and> K \<notin> fst ` set (failuresB r)
           \<and> K \<notin> set (onlyA r) \<and> K \<notin> set (onlyB r) \<and> K \<notin> set (common_octets r)"
proof -
  from sweep_result_subsets[OF assms, of "SkipInt K" env tr]
  obtain tr' r ips1 ips2 where
    e1: "enumerate_targets cidr1 (SkipInt K) = Inr ips1" and
    e2: "enumerate_targets cidr2 (SkipInt K) = Inr ips2" and
    i: "initiate_ping_queues env cidr1 cidr2 (SkipInt K) tr = (tr', Inr r)" and
    s: "set (failuresA r) \<subseteq> set ips1" "set (failuresB r) \<subseteq> set ips2"
       "set (onlyA r) \<subseteq> fst ` set ips1" "set (onlyB r) \<subseteq> fst ` set ips2"
       "set (common_octets r) \<subseteq> fst ` set ips1"
    by blast
  have k1: "K \<notin> fst ` set ips1" using assms(1) e1 by (rule enumerate_targets_skip_absent)
  have k2: "K \<notin> fst ` set ips2" using assms(2) e2 by (rule enumerate_targets_skip_absent)
  have "K \<notin> fst ` set (failuresA r)" using k1 image_mono[OF s(1), of fst] by blast
  moreover have "K \<notin> fst ` set (failuresB r)" using k2 image_mono[OF s(2), of fst] by blast
  moreover have "K \<notin> set (onlyA r)" using k1 s(3) by blast
  moreover have "K \<notin> set (onlyB r)" using k2 s(4) by blast
  moreover have "K \<notin> set (common_octets r)" using k1 s(5) by blast
  ultimately show ?thesis using i by blast
qed

text \<open>
  Claim C5. When \<^verbatim>\<open>initiate_ping_queues\<close> is given the integer \<open>K\<close> as \<^verbatim>\<open>skip\<close> and two
  range specifications that \<^verbatim>\<open>IPv4Network\<close> accepts, it returns a result, and \<open>K\<close> is the
  offset of no entry of either failure list and occurs in none of the three derived
  sequences. The same holds for a run of \<^verbatim>\<open>main\<close> with the option \<^verbatim>\<open>--skip\<close> whose
  argument \<^verbatim>\<open>int\<close> reads as a \<open>K\<close> between 0 and 255.
\<close>

theorem excluded_offset_absent:
  fixes env :: environment
  shows "(IPv4Network cidr1 = Inr net1 \<and> IPv4Network cidr2 = Inr net2 \<longrightarrow>
            (\<exists>tr' r. initiate_ping_queues env cidr1 cidr2 (SkipInt K) tr = (tr', Inr r)
               \<and> K \<notin> fst ` set (failuresA r) \<and> K \<notin> fst ` set (failuresB r)
               \<and> K \<notin> set (onlyA r) \<and> K \<notin> set (onlyB r) \<and> K \<notin> set (common_octets r)))
       \<and> (py_int arg = Inr K \<and> 0 \<le> K \<and> K \<le> 255 \<longrightarrow>
            (\<exists>tr' r. main env (Opts [(''--skip'', arg)]) = (tr', Inr r)
               \<and> K \<notin> fst ` set (failuresA r) \<and> K \<notin> fst ` set (failuresB r)
               \<and> K \<notin> set (onlyA r) \<and> K \<notin> set (onlyB r) \<and> K \<notin> set (common_octets r)))"
proof (intro conjI impI)
  assume "IPv4Network cidr1 = Inr net1 \<and> IPv4Network cidr2 = Inr net2"
  then show "\<exists>tr' r. initiate_ping_queues env cidr1 cidr2 (SkipInt K) tr = (tr', Inr r)
               \<and> K \<notin> fst ` set (failuresA r) \<and> K \<notin> fst ` set (failuresB r)
               \<and> K \<notin> set (onlyA r) \<and> K \<notin> set (onlyB r) \<and> K \<notin> set (common_octets r)"
    using sweep_skip_absent by blast
next
  assume "py_int arg = Inr K \<and> 0 \<le> K \<and> K \<le> 255"
  then have "main env (Opts [(''--skip'', arg)]) =
     initiate_ping_queues env ''192.168.1.0/24'' ''192.168.2.0/24'' (SkipInt K)
       [Print BlankMsg, Print (Cidr1Msg ''192.168.1.0/24''), Print (Cidr2Msg ''192.168.2.0/24'')]"
    by (intro main_skip_opt) simp_all
  then show "\<exists>tr' r. main env (Opts [(''--skip'', arg)]) = (tr', Inr r)
               \<and> K \<notin> fst ` set (failuresA r) \<and> K \<notin> fst ` set (failuresB r)
               \<and> K \<notin> set (onlyA r) \<and> K \<notin> set (onlyB r) \<and> K \<notin> set (common_octets r)"
    using sweep_skip_absent[OF default_cidr1_network default_cidr2_network] by simp
qed

lemma py_int_42: "py_int ''42'' = Inr 42"
  by (simp add: py_int_digits is_ascii_digit_def digits_value_def)

theorem excluded_offset_absent_witness:
  "\<exists>tr' r. main (mock_environment 1 [] []) (Opts [(''--skip'', ''42'')]) = (tr', Inr r)
      \<and> 42 \<notin> fst ` set (failuresA r) \<and> 42 \<notin> fst ` set (failuresB r)
      \<and> 42 \<notin> set (onlyA r) \<and> 42 \<notin> set (onlyB r) \<and> 42 \<notin> set (common_octets r)"
  using excluded_offset_absent[of "''192.168.1.0/24''" _ "''192.168.2.0/24''" _
          "mock_environment 1 [] []" 42 "[]" "''42''"] py_int_42
  by simp

text \<open>
  Claim C9. When both range specifications are accepted by \<^verbatim>\<open>IPv4Network\<close>, the sweep
  returns a result in which every entry of a failure list is one of the targets that
  were enumerated for that range. The address of such an entry splits at the dots into
  four parts, and \<^verbatim>\<open>int\<close> of the fourth part is the entry's offset. When the range has
  prefix length 24, the first three parts are those of the network address of the
  range.
\<close>

theorem failure_entries_enumerated:
  fixes env :: environment
  assumes "IPv4Network cidr1 = Inr net1" and "IPv4Network cidr2 = Inr net2"
  shows "\<exists>tr' r ips1 ips2.
           enumerate_targets cidr1 skip = Inr ips1 \<and> enumerate_targets cidr2 skip = Inr ips2
         \<and> initiate_ping_queues env cidr1 cidr2 skip tr = (tr', Inr r)
         \<and> set (failuresA r) \<subseteq> set ips1 \<and> set (failuresB r) \<subseteq> set ips2
         \<and> (\<forall>(offset, addr) \<in> set (failuresA r) \<union> set (failuresB r).
              length (str_split (CHR ''.'') addr) = 4
              \<and> py_int (str_split (CHR ''.'') addr ! 3) = Inr offset)
         \<and> (prefixlen net1 = 24 \<longrightarrow>
              (\<forall>(offset, addr) \<in> set (failuresA r).
                 take 3 (str_split (CHR ''.'') addr) =
                 take 3 (str_split (CHR ''.'') (str_ip (network_address net1)))))
         \<and> (prefixlen net2 = 24 \<longrightarrow>
              (\<forall>(offset, addr) \<in> set (failuresB r).
                 take 3 (str_split (CHR ''.'') addr) =
                 take 3 (str_split (CHR ''.'') (str_ip (network_address net2)))))"
proof -
  from sweep_result_subsets[OF assms, of skip env tr]
  obtain tr' r ips1 ips2 where
    e1: "enumerate_targets cidr1 skip = Inr ips1" and
    e2: "enumerate_targets cidr2 skip = Inr ips2" and
    i: "initiate_ping_queues env cidr1 cidr2 skip tr = (tr', Inr r)" and
    s1: "set (failuresA r) \<subseteq> set ips1" and s2: "set (failuresB r) \<subseteq> set ips2"
    by blast
  have wf: "length (str_split (CHR ''.'') addr) = 4
            \<and> py_int (str_split (CHR ''.'') addr ! 3) = Inr offset"
    if "IPv4Network cidr = Inr net" "enumerate_targets cidr skip = Inr ips" "(offset, addr) \<in> set ips"
    for cidr net ips offset addr
  proof -
    from enumerate_targets_members[OF that] obtain ip where
      "addr = str_ip ip" "offset = int (ip mod 256)" by blast
    then show ?thesis
      by (simp add: final_octet_of_str_ip) (simp add: str_split_str_ip to_bytes4_def)
  qed
  have pre: "take 3 (str_split (CHR ''.'') addr) =
             take 3 (str_split (CHR ''.'') (str_ip (network_address net)))"
    if "IPv4Network cidr = Inr net" "enumerate_targets cidr skip = Inr ips" "(offset, addr) \<in> set ips"
       "prefixlen net = 24"
    for cidr net ips offset addr
  proof -
    note n = IPv4Network_24[OF that(1,4)]
    from enumerate_targets_members[OF that(1,2,3)] obtain ip where
      ip: "ip \<in> set (network_iter net)" "addr = str_ip ip" by blast
    from ip(1) have "network_address net \<le> ip" "ip < network_address net + 256"
      unfolding n(2) by auto
    then obtain k where "ip = network_address net + k" "k < 256"
      by (metis le_Suc_ex nat_add_left_cancel_less)
    with first_octets_of_block[OF n(1)] ip(2) show ?thesis by simp
  qed
  have a: "\<forall>(offset, addr) \<in> set (failuresA r) \<union> set (failuresB r).
              length (str_split (CHR ''.'') addr) = 4
              \<and> py_int (str_split (CHR ''.'') addr ! 3) = Inr offset"
    using wf[OF assms(1) e1] wf[OF assms(2) e2] s1 s2 by blast
  have b: "prefixlen net1 = 24 \<longrightarrow>
              (\<forall>(offset, addr) \<in> set (failuresA r).
                 take 3 (str_split (CHR ''.'') addr) =
                 take 3 (str_split (CHR ''.'') (str_ip (network_address net1))))"
    using pre[OF assms(1) e1] s1 by blast
  have c: "prefixlen net2 = 24 \<longrightarrow>
              (\<forall>(offset, addr) \<in> set (failuresB r).
                 take 3 (str_split (CHR ''.'') addr) =
                 take 3 (str_split (CHR ''.'') (str_ip (network_address net2))))"
    using pre[OF assms(2) e2] s2 by blast
  from e1 e2 i s1 s2 a b c show ?thesis by blast
qed

theorem failure_entries_enumerated_witness:
  "\<exists>tr' r. initiate_ping_queues (mock_environment 1 [] []) ''192.168.1.0/24'' ''192.168.2.0/24''
              (SkipStr []) [] = (tr', Inr r)
      \<and> (\<forall>(offset, addr) \<in> set (failuresA r).
            take 3 (str_split (CHR ''.'') addr) = [''192'', ''168'', ''1'']
            \<and> py_int (str_split (CHR ''.'') addr ! 3) = Inr offset)
      \<and> (\<forall>(offset, addr) \<in> set (failuresB r).
            take 3 (str_split (CHR ''.'') addr) = [''192'', ''168'', ''2'']
            \<and> py_int (str_split (CHR ''.'') addr ! 3) = Inr offset)"
proof -
  have p1: "take 3 (str_split (CHR ''.'') (str_ip 3232235776)) = [''192'', ''168'', ''1'']"
    by (simp add: str_split_str_ip to_bytes4_def str_nat.simps digit_char_def)
  have p2: "take 3 (str_split (CHR ''.'') (str_ip 3232236032)) = [''192'', ''168'', ''2'']"
    by (simp add: str_split_str_ip to_bytes4_def str_nat.simps digit_char_def)
  from failure_entries_enumerated[OF default_cidr1_network default_cidr2_network,
         of "SkipStr []" "mock_environment 1 [] []" "[]"]
  show ?thesis
    unfolding ipv4network.simps p1 p2 by fastforce
qed

subsection \<open>Options that \<^verbatim>\<open>main\<close> rejects\<close>

lemma last3_suffix:
  assumes "last3 s = ''/24''"
  shows "\<exists>pre. s = pre @ ''/24''"
proof -
  have "s = take (length s - 3) s @ drop (length s - 3) s" by simp
  with assms show ?thesis unfolding last3_def by metis
qed

lemma prefix_24: "make_netmask (Some ''24'') = Inr 24"
  by (simp add: make_netmask_def prefix_from_prefix_string_def is_ascii_digit_def digits_value_def)

lemma IPv4Network_suffix_24:
  assumes "last3 cidr = ''/24''" and "IPv4Network cidr = Inr net"
  shows "prefixlen net = 24"
proof -
  from last3_suffix[OF assms(1)] obtain pre where cidr: "cidr = pre @ CHR ''/'' # ''24''"
    by auto
  have sp: "str_split (CHR ''/'') cidr = str_split (CHR ''/'') pre @ [''24'']"
    unfolding cidr by (rule str_split_snoc_word) simp
  from assms(2) have le: "length (str_split (CHR ''/'') cidr) \<le> 2"
    by (auto simp: IPv4Network_def Let_def split: if_splits)
  obtain w where w: "str_split (CHR ''/'') pre = [w]"
    using le str_split_not_Nil[of "CHR ''/''" pre] unfolding sp
    by (cases "str_split (CHR ''/'') pre") (auto simp: length_Suc_conv)
  have sp2: "str_split (CHR ''/'') cidr = [w, ''24'']"
    unfolding sp w by simp
  from assms(2) show ?thesis
    unfolding IPv4Network_def sp2
    by (auto simp: Let_def prefix_24 split: sum.splits if_splits)
qed

lemma suffix_24_block:
  assumes "last3 cidr = ''/24''" and "IPv4Network cidr = Inr net"
  shows "denotes_block_256 cidr"
proof -
  have "prefixlen net = 24" using assms by (rule IPv4Network_suffix_24)
  from IPv4Network_24(2)[OF assms(2) this] assms(2) show ?thesis
    by (simp add: denotes_block_256_def)
qed

lemma process_opts_pings:
  "process_opts opts cfg tr = (tr', res) \<Longrightarrow> pings tr' = pings tr"
proof (induction opts cfg tr rule: process_opts.induct)
  case (1 cfg tr)
  then show ?case by simp
next
  case (2 opt arg rest cidr1 cidr2 skip tr)
  then show ?case
    by (auto split: if_splits sum.splits)
qed

lemma process_opts_final:
  "process_opts opts (cidr1, cidr2, skip) tr = (tr', Inr (c1, c2, sk)) \<Longrightarrow>
     (c1, c2) = final_cidrs opts (cidr1, cidr2)
     \<and> (c1 = cidr1 \<or> last3 c1 = ''/24'') \<and> (c2 = cidr2 \<or> last3 c2 = ''/24'')"
proof (induction opts "(cidr1, cidr2, skip)" tr arbitrary: cidr1 cidr2 skip rule: process_opts.induct)
  case (1 tr)
  then show ?case by simp
next
  case (2 opt arg rest cidr1 cidr2 skip tr)
  then show ?case
    by (auto split: if_splits sum.splits)
qed


lemma process_opts_append:
  "process_opts pre (cidr1, cidr2, skip) tr = (tr0, Inr cfg0) \<Longrightarrow>
   process_opts (pre @ rest) (cidr1, cidr2, skip) tr = process_opts rest cfg0 tr0"
proof (induction pre "(cidr1, cidr2, skip)" tr arbitrary: cidr1 cidr2 skip rule: process_opts.induct)
  case (1 tr)
  then show ?case by simp
next
  case (2 opt arg rest' cidr1 cidr2 skip tr)
  then show ?case
    by (auto split: if_splits sum.splits)
qed

lemma suffix_24_not_block:
  assumes "last3 cidr = ''/24''" and "\<not> denotes_block_256 cidr"
  shows "\<exists>e. IPv4Network cidr = Inl e"
proof (cases "IPv4Network cidr")
  case (Inl e)
  then show ?thesis by blast
next
  case (Inr net)
  with assms suffix_24_block show ?thesis by blast
qed

lemma last3_defaults: "last3 ''192.168.1.0/24'' = ''/24''" "last3 ''192.168.2.0/24'' = ''/24''"
  by (simp_all add: last3_def)

lemma main_Inl:
  "process_opts opts default_config [] = (tr0, Inl e) \<Longrightarrow> main env (Opts opts) = (tr0, Inl e)"
  by (simp add: main_def)

lemma main_Inr:
  "process_opts opts default_config [] = (tr0, Inr (cidr1, cidr2, skip)) \<Longrightarrow>
   main env (Opts opts) =
     initiate_ping_queues env cidr1 cidr2 skip
       (tr0 @ [Print BlankMsg, Print (Cidr1Msg cidr1), Print (Cidr2Msg cidr2)])"
  by (simp add: main_def)

text \<open>
  Claim C7. Take any option list that \<^verbatim>\<open>getopt\<close> may hand to \<^verbatim>\<open>main\<close>. If the range
  specification that the options leave for the first or for the second range does not
  denote a block of exactly 256 addresses, \<^verbatim>\<open>main\<close> ends with an error (a \<^verbatim>\<open>sys.exit\<close>
  or an exception) and its trace holds no \<^verbatim>\<open>ping\<close>: no worker was started. In
  particular, when the options before a range option are accepted and the argument of
  that range option does not end in \<^verbatim>\<open>/24\<close>, \<^verbatim>\<open>main\<close> prints the message that only
  CIDR/24 subnets are accepted and leaves through \<^verbatim>\<open>sys.exit()\<close> at once.
\<close>

theorem main_rejects_non_block_range:
  fixes env :: environment
  shows "(\<not> denotes_block_256 (fst (final_cidrs opts (''192.168.1.0/24'', ''192.168.2.0/24'')))
          \<or> \<not> denotes_block_256 (snd (final_cidrs opts (''192.168.1.0/24'', ''192.168.2.0/24'')))
          \<longrightarrow> (\<exists>tr e. main env (Opts opts) = (tr, Inl e) \<and> pings tr = []))
       \<and> (process_opts pre default_config [] = (tr0, Inr cfg)
            \<and> opt \<noteq> ''-h'' \<and> (str_in opt ''--cidr1'' \<or> str_in opt ''--cidr2'')
            \<and> last3 arg \<noteq> ''/24''
          \<longrightarrow> main env (Opts (pre @ (opt, arg) # post)) =
                (tr0 @ [Print Cidr24OnlyMsg], Inl (SystemExit None))
              \<and> pings (tr0 @ [Print Cidr24OnlyMsg]) = [])"
    (is "(?P1 \<longrightarrow> ?Q1) \<and> (?P2 \<longrightarrow> ?Q2)")
proof (rule conjI; rule impI)
  let ?c = "final_cidrs opts (''192.168.1.0/24'', ''192.168.2.0/24'')"
  assume bad: ?P1
  obtain tr0 res where p: "process_opts opts default_config [] = (tr0, res)"
    by (cases "process_opts opts default_config []")
  have pg: "pings tr0 = []"
    using process_opts_pings[OF p] by simp
  show ?Q1
  proof (cases res)
    case (Inl e)
    with p main_Inl pg show ?thesis by blast
  next
    case (Inr cfg)
    obtain c1 c2 sk where cfg: "cfg = (c1, c2, sk)" by (cases cfg)
    from p Inr cfg have p': "process_opts opts (''192.168.1.0/24'', ''192.168.2.0/24'', SkipStr []) [] =
                               (tr0, Inr (c1, c2, sk))"
      by (simp add: default_config_def)
    from process_opts_final[OF p'] last3_defaults
    have c: "?c = (c1, c2)" and l1: "last3 c1 = ''/24''" and l2: "last3 c2 = ''/24''"
      by auto
    let ?tr = "tr0 @ [Print BlankMsg, Print (Cidr1Msg c1), Print (Cidr2Msg c2)]"
    have m: "main env (Opts opts) = initiate_ping_queues env c1 c2 sk ?tr"
      using p Inr cfg by (intro main_Inr) simp
    have pt: "pings ?tr = []" using pg by simp
    show ?thesis
    proof (cases "IPv4Network c1")
      case e1: (Inl e)
      then have "initiate_ping_queues env c1 c2 sk ?tr = (?tr, Inl e)"
        by (intro initiate_ping_queues_Inl1 enumerate_targets_Inl)
      with m pt show ?thesis by metis
    next
      case n1: (Inr net1)
      with l1 have "denotes_block_256 c1" by (intro suffix_24_block)
      with bad c have "\<not> denotes_block_256 c2" by simp
      with l2 obtain e where e2: "IPv4Network c2 = Inl e"
        using suffix_24_not_block by blast
      have "initiate_ping_queues env c1 c2 sk ?tr = (?tr, Inl e)"
        using enumerate_targets_Inr[OF n1] enumerate_targets_Inl[OF e2]
        by (rule initiate_ping_queues_Inl2)
      with m pt show ?thesis by metis
    qed
  qed
next
  assume a: ?P2
  obtain c1 c2 sk where cfg: "cfg = (c1, c2, sk)" by (cases cfg)
  from a have "process_opts (pre @ (opt, arg) # post) default_config [] =
                 process_opts ((opt, arg) # post) cfg tr0"
    unfolding default_config_def by (intro process_opts_append) simp
  also have "\<dots> = (tr0 @ [Print Cidr24OnlyMsg], Inl (SystemExit None))"
    using a unfolding cfg by auto
  finally have "main env (Opts (pre @ (opt, arg) # post)) =
                (tr0 @ [Print Cidr24OnlyMsg], Inl (SystemExit None))"
    by (rule main_Inl)
  moreover have "pings (tr0 @ [Print Cidr24OnlyMsg]) = []"
    using process_opts_pings[of pre default_config "[]" tr0 "Inr cfg"] a by simp
  ultimately show ?Q2
    by simp
qed


lemma str_in_cidr:
  "str_in ''--cidr1'' ''--cidr1''" "\<not> str_in ''--cidr2'' ''--cidr1''" "str_in ''--cidr2'' ''--cidr2''"
  by (simp_all add: str_in_def upt_rec)

theorem main_rejects_non_block_range_witness:
  "(\<exists>tr e. main (mock_environment 1 [] []) (Opts [(''--cidr2'', ''300.1.1.0/24'')]) = (tr, Inl e)
       \<and> pings tr = [])
   \<and> main (mock_environment 1 [] []) (Opts [(''--cidr1'', ''10.0.0.0/25'')]) =
       ([Print Cidr24OnlyMsg], Inl (SystemExit None))"
proof -
  have "IPv4Network ''300.1.1.0/24'' = Inl AddressValueError"
    by (simp add: network_eval)
  then have bad: "\<not> denotes_block_256 (snd (final_cidrs [(''--cidr2'', ''300.1.1.0/24'')]
                     (''192.168.1.0/24'', ''192.168.2.0/24'')))"
    by (simp add: denotes_block_256_def str_in_cidr)
  have gate: "process_opts [] default_config [] = ([], Inr default_config)
            \<and> ''--cidr1'' \<noteq> ''-h'' \<and> (str_in ''--cidr1'' ''--cidr1'' \<or> str_in ''--cidr1'' ''--cidr2'')
            \<and> last3 ''10.0.0.0/25'' \<noteq> ''/24''"
    by (simp add: str_in_cidr last3_def)
  from main_rejects_non_block_range
         [of "[(''--cidr2'', ''300.1.1.0/24'')]" "mock_environment 1 [] []"
             "[]" "[]" default_config "''--cidr1''" "''10.0.0.0/25''" "[]"]
       bad gate
  show ?thesis by simp
qed

lemma py_int_300: "py_int ''300'' = Inr 300"
  by (simp add: py_int_digits is_ascii_digit_def digits_value_def)

lemma py_int_3x: "py_int ''3x'' = Inl ValueError"
  by (simp add: py_int_def py_strip_def py_isspace_def is_ascii_digit_def Let_def)

text \<open>
  Claim C6 on the code. The argument \<^verbatim>\<open>300\<close> of \<^verbatim>\<open>--skip\<close> is an integer outside
  0..255: \<^verbatim>\<open>int\<close> succeeds, the \<^verbatim>\<open>assert\<close> fails, and the \<^verbatim>\<open>except\<close> clause does not
  catch the \<^verbatim>\<open>AssertionError\<close>. \<^verbatim>\<open>main\<close> ends with that exception, having printed
  nothing: neither the message about valid octet values nor \<^verbatim>\<open>sys.exit()\<close> is reached.
  An argument that is no integer, such as \<^verbatim>\<open>3x\<close>, does get the message and the exit.
\<close>

theorem skip_out_of_range_raises_assertion:
  "main env (Opts [(''--skip'', ''300'')]) = ([], Inl AssertionError)
   \<and> main env (Opts [(''--skip'', ''3x'')]) = ([Print SkipOctetMsg], Inl (SystemExit None))"
  by (simp add: main_def default_config_def str_in_skip py_int_300 py_int_3x)

end
